theory Spec2Isabelle
  imports Complex_Main "HOL-Library.Multiset"
begin

section \<open>Python values\<close>

text \<open>
  The application is a Flask program (\<^verbatim>\<open>app/app.py\<close>). Its three pieces of logic are
  \<^verbatim>\<open>parse_value\<close>, the formatting step of \<^verbatim>\<open>predict\<close> and the layout loop of
  \<^verbatim>\<open>generate_blueprint\<close>.

  A Python \<^verbatim>\<open>float\<close> is modelled as a rational number extended by the three special
  values that \<^verbatim>\<open>float("inf")\<close>, \<^verbatim>\<open>float("-inf")\<close> and \<^verbatim>\<open>float("nan")\<close>
  produce. Arithmetic on finite values is exact: the rounding to 53 bits, the overflow of
  a finite result to infinity, underflow and the sign of zero are not modelled.

  A Python \<^verbatim>\<open>str\<close> is a \<^typ>\<open>string\<close> whose characters are the code points 0 to 255.
\<close>

datatype pyfloat = Fin rat | PInf | NInf | NaN

text \<open>
  The values a JSON body or the regression model can hand to the program. A dict is the
  list of its items, every key occurring once.
\<close>

datatype pyval =
    PNone
  | PBool bool
  | PInt int
  | PFloat pyfloat
  | PStr string
  | PList "pyval list"
  | PDict "(string \<times> pyval) list"

text \<open>
  The exceptions the program meets. \<open>ValueError\<close> carries the message of the
  \<^verbatim>\<open>raise ValueError(...)\<close> statements of \<^verbatim>\<open>parse_value\<close>; the others are raised by
  built-ins: \<^verbatim>\<open>float(v)\<close> on a value it cannot convert, \<^verbatim>\<open>int(x)\<close> on an infinity or
  a nan, \<^verbatim>\<open>v.get\<close> on a value that is no dict, a float division by zero, and whatever
  the model raises.
\<close>

datatype exn =
    ValueError string
  | CouldNotConvertToFloat pyval
  | CannotConvertToInteger pyfloat
  | NoAttributeGet pyval
  | ZeroDivisionError
  | ModelRaised string

subsection \<open>Float arithmetic\<close>

fun fneg :: "pyfloat \<Rightarrow> pyfloat" where
  "fneg (Fin a) = Fin (- a)"
| "fneg PInf = NInf"
| "fneg NInf = PInf"
| "fneg NaN = NaN"

fun fadd :: "pyfloat \<Rightarrow> pyfloat \<Rightarrow> pyfloat" where
  "fadd NaN _ = NaN"
| "fadd _ NaN = NaN"
| "fadd (Fin a) (Fin b) = Fin (a + b)"
| "fadd PInf NInf = NaN"
| "fadd NInf PInf = NaN"
| "fadd PInf _ = PInf"
| "fadd _ PInf = PInf"
| "fadd NInf _ = NInf"
| "fadd _ NInf = NInf"

text \<open>The sign of a non-nan value: -1, 0 or 1.\<close>

fun fsgn :: "pyfloat \<Rightarrow> int" where
  "fsgn (Fin a) = (if a < 0 then - 1 else if a = 0 then 0 else 1)"
| "fsgn PInf = 1"
| "fsgn NInf = - 1"
| "fsgn NaN = 0"

definition inf_of_sign :: "int \<Rightarrow> pyfloat" where
  "inf_of_sign s = (if s < 0 then NInf else if s = 0 then NaN else PInf)"

fun fmul :: "pyfloat \<Rightarrow> pyfloat \<Rightarrow> pyfloat" where
  "fmul NaN _ = NaN"
| "fmul _ NaN = NaN"
| "fmul (Fin a) (Fin b) = Fin (a * b)"
| "fmul a b = inf_of_sign (fsgn a * fsgn b)"

text \<open>The quotient when the divisor is not zero.\<close>

fun fquot :: "pyfloat \<Rightarrow> pyfloat \<Rightarrow> pyfloat" where
  "fquot NaN _ = NaN"
| "fquot _ NaN = NaN"
| "fquot (Fin a) (Fin b) = Fin (a / b)"
| "fquot (Fin a) _ = Fin 0"
| "fquot a (Fin b) = inf_of_sign (fsgn a * fsgn (Fin b))"
| "fquot _ _ = NaN"

text \<open>\<^verbatim>\<open>a / b\<close> raises ZeroDivisionError whenever \<open>b\<close> is zero.\<close>

definition fdiv :: "pyfloat \<Rightarrow> pyfloat \<Rightarrow> exn + pyfloat" where
  "fdiv a b = (if b = Fin 0 then Inl ZeroDivisionError else Inr (fquot a b))"

text \<open>\<^verbatim>\<open>a < b\<close>: every comparison with a nan is false.\<close>

fun flt :: "pyfloat \<Rightarrow> pyfloat \<Rightarrow> bool" where
  "flt NaN _ = False"
| "flt _ NaN = False"
| "flt (Fin a) (Fin b) = (a < b)"
| "flt PInf _ = False"
| "flt _ PInf = True"
| "flt _ NInf = False"
| "flt NInf _ = True"

definition fgt :: "pyfloat \<Rightarrow> pyfloat \<Rightarrow> bool" where
  "fgt a b = flt b a"

text \<open>\<^verbatim>\<open>a <= b\<close>.\<close>

definition fle :: "pyfloat \<Rightarrow> pyfloat \<Rightarrow> bool" where
  "fle a b = (a \<noteq> NaN \<and> b \<noteq> NaN \<and> \<not> flt b a)"

text \<open>\<^verbatim>\<open>max(a, b)\<close> of two arguments: the first one unless the second is greater.\<close>

definition fmax :: "pyfloat \<Rightarrow> pyfloat \<Rightarrow> pyfloat" where
  "fmax a b = (if fgt b a then b else a)"

text \<open>\<^verbatim>\<open>int(x)\<close> truncates towards zero and raises on an infinity or a nan.\<close>

definition trunc_rat :: "rat \<Rightarrow> int" where
  "trunc_rat q = (if 0 \<le> q then \<lfloor>q\<rfloor> else - \<lfloor>- q\<rfloor>)"

fun py_int :: "pyfloat \<Rightarrow> exn + int" where
  "py_int (Fin q) = Inr (trunc_rat q)"
| "py_int x = Inl (CannotConvertToInteger x)"

subsection \<open>Strings\<close>

text \<open>\<^verbatim>\<open>str.isspace\<close> on the code points below 256.\<close>

definition py_isspace :: "char \<Rightarrow> bool" where
  "py_isspace c = (let n = (of_char c :: nat)
     in (9 \<le> n \<and> n \<le> 13) \<or> (28 \<le> n \<and> n \<le> 32) \<or> n = 133 \<or> n = 160)"

text \<open>\<^verbatim>\<open>s.strip()\<close>.\<close>

definition strip :: "string \<Rightarrow> string" where
  "strip s = rev (dropWhile py_isspace (rev (dropWhile py_isspace s)))"

text \<open>\<^verbatim>\<open>s.lower()\<close> on the code points below 256.\<close>

definition lower_char :: "char \<Rightarrow> char" where
  "lower_char c = (let n = (of_char c :: nat)
     in if (65 \<le> n \<and> n \<le> 90) \<or> (192 \<le> n \<and> n \<le> 222 \<and> n \<noteq> 215)
        then char_of (n + 32) else c)"

definition lower :: "string \<Rightarrow> string" where
  "lower s = map lower_char s"

subsection \<open>The built-in \<^verbatim>\<open>float\<close>\<close>

text \<open>
  \<^verbatim>\<open>float(s)\<close> on a string removes leading and trailing whitespace, where the
  whitespace below code point 127 is only tab, newline, vertical tab, form feed, carriage
  return and space (so the separators 28 to 31, which \<^verbatim>\<open>strip\<close> removes, make
  \<^verbatim>\<open>float\<close> fail). What is left is an optional sign followed by \<^verbatim>\<open>inf\<close>,
  \<^verbatim>\<open>infinity\<close> or \<^verbatim>\<open>nan\<close> in any case, or by a decimal number: digits, an
  optional point and digits, an optional exponent, with single underscores allowed
  between digits.
\<close>

definition float_isspace :: "char \<Rightarrow> bool" where
  "float_isspace c = (let n = (of_char c :: nat)
     in (9 \<le> n \<and> n \<le> 13) \<or> n = 32 \<or> n = 133 \<or> n = 160)"

definition float_strip :: "string \<Rightarrow> string" where
  "float_strip s = rev (dropWhile float_isspace (rev (dropWhile float_isspace s)))"

definition is_digit :: "char \<Rightarrow> bool" where
  "is_digit c = (let n = (of_char c :: nat) in 48 \<le> n \<and> n \<le> 57)"

definition digit_val :: "char \<Rightarrow> nat" where
  "digit_val c = of_char c - 48"

text \<open>A digit part: a digit, then digits each preceded by at most one underscore.\<close>

fun digitpart :: "string \<Rightarrow> bool" where
  "digitpart [] = False"
| "digitpart [c] = is_digit c"
| "digitpart (c # d # cs) =
     (is_digit c \<and> (if d = CHR ''_'' then digitpart cs else digitpart (d # cs)))"

definition nat_of_digits :: "string \<Rightarrow> nat" where
  "nat_of_digits s = foldl (\<lambda>a c. 10 * a + digit_val c) 0 (filter (\<lambda>c. c \<noteq> CHR ''_'') s)"

definition count_digits :: "string \<Rightarrow> nat" where
  "count_digits s = length (filter (\<lambda>c. c \<noteq> CHR ''_'') s)"

text \<open>Splits a string at the first character that satisfies \<open>P\<close>, if there is one.\<close>

definition split_first :: "(char \<Rightarrow> bool) \<Rightarrow> string \<Rightarrow> string \<times> string option" where
  "split_first P s = (takeWhile (\<lambda>c. \<not> P c) s,
     case dropWhile (\<lambda>c. \<not> P c) s of [] \<Rightarrow> None | _ # r \<Rightarrow> Some r)"

definition split_sign :: "string \<Rightarrow> bool \<times> string" where
  "split_sign s = (case s of [] \<Rightarrow> (False, [])
     | c # r \<Rightarrow> if c = CHR ''-'' then (True, r) else if c = CHR ''+'' then (False, r) else (False, s))"

definition pow10 :: "int \<Rightarrow> rat" where
  "pow10 k = (if 0 \<le> k then 10 ^ nat k else 1 / 10 ^ nat (- k))"

definition parse_exponent :: "string option \<Rightarrow> int option" where
  "parse_exponent e = (case e of None \<Rightarrow> Some 0
     | Some ex \<Rightarrow> (let (neg, d) = split_sign ex
         in if digitpart d
            then Some (if neg then - int (nat_of_digits d) else int (nat_of_digits d))
            else None))"

definition parse_decimal :: "string \<Rightarrow> rat option" where
  "parse_decimal u =
     (let (m, e) = split_first (\<lambda>c. c = CHR ''e'' \<or> c = CHR ''E'') u;
          (ip, fp) = split_first (\<lambda>c. c = CHR ''.'') m;
          f = (case fp of None \<Rightarrow> [] | Some f \<Rightarrow> f)
      in if (ip = [] \<or> digitpart ip) \<and> (f = [] \<or> digitpart f) \<and> ip @ f \<noteq> []
         then (case parse_exponent e of None \<Rightarrow> None
               | Some k \<Rightarrow> Some (of_nat (nat_of_digits (ip @ f)) * pow10 (k - int (count_digits f))))
         else None)"

definition float_of_str :: "string \<Rightarrow> pyfloat option" where
  "float_of_str s =
     (let (neg, u) = split_sign (float_strip s); w = lower u
      in if w = ''inf'' \<or> w = ''infinity'' then Some (if neg then NInf else PInf)
         else if w = ''nan'' then Some NaN
         else (case parse_decimal u of None \<Rightarrow> None
               | Some q \<Rightarrow> Some (Fin (if neg then - q else q))))"

text \<open>\<^verbatim>\<open>float(v)\<close> on any value.\<close>

fun py_float :: "pyval \<Rightarrow> exn + pyfloat" where
  "py_float (PFloat x) = Inr x"
| "py_float (PInt i) = Inr (Fin (of_int i))"
| "py_float (PBool b) = Inr (Fin (if b then 1 else 0))"
| "py_float (PStr s) =
     (case float_of_str s of None \<Rightarrow> Inl (CouldNotConvertToFloat (PStr s)) | Some x \<Rightarrow> Inr x)"
| "py_float v = Inl (CouldNotConvertToFloat v)"

text \<open>
  The format \<^verbatim>\<open>f"{x:.2f}"\<close>: two decimals, rounded half to even on the value, with
  the sign of a negative value kept even when it rounds to zero.
\<close>

fun str_of_nat :: "nat \<Rightarrow> string" where
  "str_of_nat n =
     (if n < 10 then [char_of (48 + n)] else str_of_nat (n div 10) @ [char_of (48 + n mod 10)])"

declare str_of_nat.simps [simp del]

definition round_half_even :: "rat \<Rightarrow> int" where
  "round_half_even q = (let f = \<lfloor>q\<rfloor>; d = q - of_int f
     in if d < 1 / 2 then f else if 1 / 2 < d then f + 1 else if even f then f else f + 1)"

fun fmt2 :: "pyfloat \<Rightarrow> string" where
  "fmt2 (Fin q) = (let n = nat (round_half_even (\<bar>q\<bar> * 100))
     in (if q < 0 then ''-'' else []) @ str_of_nat (n div 100) @ ''.''
        @ [char_of (48 + n mod 100 div 10), char_of (48 + n mod 10)])"
| "fmt2 PInf = ''inf''"
| "fmt2 NInf = ''-inf''"
| "fmt2 NaN = ''nan''"

section \<open>The input parser\<close>

definition FEATURES :: "string list" where
  "FEATURES = [''area'', ''bedrooms'', ''bathrooms'', ''stories'', ''mainroad'', ''guestroom'',
     ''basement'', ''hotwaterheating'', ''airconditioning'', ''parking'', ''prefarea'',
     ''furnishingstatus'']"

text \<open>The three messages of \<^verbatim>\<open>parse_value\<close>, under the names the specification gives them.\<close>

definition MissingInput :: "string \<Rightarrow> exn" where
  "MissingInput name = ValueError (''Missing input for: '' @ name)"

definition UnrecognizedCategory :: "string \<Rightarrow> exn" where
  "UnrecognizedCategory raw = ValueError (''Unrecognized furnishingstatus: '' @ raw)"

definition InvalidNumeric :: "string \<Rightarrow> string \<Rightarrow> exn" where
  "InvalidNumeric name raw = ValueError (''Invalid numeric input for '' @ name @ '': '' @ raw)"

definition mapping :: "(string \<times> int) list" where
  "mapping = [(''unfurnished'', 0), (''semi-furnished'', 1), (''furnished'', 2)]"

text \<open>
  \<^verbatim>\<open>parse_value(name, raw_value)\<close>. The raw value is what \<^verbatim>\<open>request.form.get\<close>
  returns: a string, or None for an absent field.
\<close>

definition parse_value :: "string \<Rightarrow> string option \<Rightarrow> exn + pyfloat" where
  "parse_value name raw_value =
     (case raw_value of
        None \<Rightarrow> Inl (MissingInput name)
      | Some rv \<Rightarrow>
          (let raw = strip rv
           in if raw = [] then Inl (MissingInput name)
              else if name = ''furnishingstatus'' then
                (case py_float (PStr raw) of
                   Inr x \<Rightarrow> Inr x
                 | Inl _ \<Rightarrow>
                     (let key = lower raw
                      in case map_of mapping key of
                           Some k \<Rightarrow> py_float (PInt k)
                         | None \<Rightarrow> Inl (UnrecognizedCategory raw)))
              else
                (case py_float (PStr raw) of
                   Inr x \<Rightarrow> Inr x
                 | Inl _ \<Rightarrow> Inl (InvalidNumeric name raw))))"

section \<open>The prediction handler\<close>

text \<open>The loop of \<^verbatim>\<open>predict\<close> over the features; the first exception leaves it.\<close>

fun parse_features :: "(string \<Rightarrow> string option) \<Rightarrow> string list \<Rightarrow> pyfloat list \<Rightarrow> exn + pyfloat list" where
  "parse_features form [] values = Inr values"
| "parse_features form (feat # feats) values =
     (case parse_value feat (form feat) of
        Inl e \<Rightarrow> Inl e
      | Inr val \<Rightarrow> parse_features form feats (values @ [val]))"

text \<open>
  The formatting step: the inner \<^verbatim>\<open>try\<close> divides and formats, its handler formats
  \<^verbatim>\<open>float(pred)\<close> again, and an exception of the handler leaves the step.
\<close>

definition format_prediction :: "pyval \<Rightarrow> exn + string" where
  "format_prediction pred =
     (case (case py_float pred of
              Inl e \<Rightarrow> Inl e
            | Inr p \<Rightarrow> (case fdiv p (Fin 100000) of
                          Inl e \<Rightarrow> Inl e
                        | Inr lakhs \<Rightarrow> Inr (fmt2 lakhs @ '' L''))) of
        Inr prediction_text \<Rightarrow> Inr prediction_text
      | Inl _ \<Rightarrow> (case py_float pred of
                    Inl e \<Rightarrow> Inl e
                  | Inr p \<Rightarrow> Inr (fmt2 p)))"

text \<open>The two pages \<^verbatim>\<open>predict\<close> renders: the estimate, or the form with the exception.\<close>

datatype page =
    Estimate string "pyfloat option"
  | Index_error exn

text \<open>
  \<^verbatim>\<open>predict\<close>, with the form as a map and the model as a function from the feature
  vector to \<^verbatim>\<open>model.predict(X)[0]\<close> or the exception it raises.
\<close>

definition predict :: "(pyfloat list \<Rightarrow> exn + pyval) \<Rightarrow> (string \<Rightarrow> string option) \<Rightarrow> page" where
  "predict model form =
     (case parse_features form FEATURES [] of
        Inl e \<Rightarrow> Index_error e
      | Inr values \<Rightarrow>
          (case model values of
             Inl e \<Rightarrow> Index_error e
           | Inr pred \<Rightarrow>
               (case format_prediction pred of
                  Inl e \<Rightarrow> Index_error e
                | Inr prediction_text \<Rightarrow>
                    Estimate prediction_text
                      (case form ''area'' of None \<Rightarrow> None | Some a \<Rightarrow> float_of_str a))))"

section \<open>The blueprint layout engine\<close>

text \<open>\<^verbatim>\<open>d.get(k, default)\<close>: only a dict has the method.\<close>

definition dict_get :: "pyval \<Rightarrow> string \<Rightarrow> pyval \<Rightarrow> exn + pyval" where
  "dict_get d k dflt =
     (case d of
        PDict kvs \<Rightarrow> Inr (case map_of kvs k of None \<Rightarrow> dflt | Some v \<Rightarrow> v)
      | _ \<Rightarrow> Inl (NoAttributeGet d))"

text \<open>The truth value of a Python value, as \<^verbatim>\<open>not rooms\<close> tests it.\<close>

fun truthy :: "pyval \<Rightarrow> bool" where
  "truthy PNone = False"
| "truthy (PBool b) = b"
| "truthy (PInt i) = (i \<noteq> 0)"
| "truthy (PFloat x) = (x \<noteq> Fin 0)"
| "truthy (PStr s) = (s \<noteq> [])"
| "truthy (PList vs) = (vs \<noteq> [])"
| "truthy (PDict kvs) = (kvs \<noteq> [])"

text \<open>\<^verbatim>\<open>isinstance(v, list)\<close> and the items of a list.\<close>

fun is_list :: "pyval \<Rightarrow> bool" where
  "is_list (PList vs) = True"
| "is_list v = False"

fun list_items :: "pyval \<Rightarrow> pyval list" where
  "list_items (PList vs) = vs"
| "list_items v = []"

text \<open>
  \<^verbatim>\<open>str(v)\<close>: a string is returned as it is; what \<^verbatim>\<open>str\<close> prints for the other
  values is a parameter \<open>str_other\<close> of the model.
\<close>

definition py_str :: "(pyval \<Rightarrow> string) \<Rightarrow> pyval \<Rightarrow> string" where
  "py_str str_other v = (case v of PStr s \<Rightarrow> s | _ \<Rightarrow> str_other v)"

text \<open>An entry of the list \<^verbatim>\<open>sanitized\<close>: \<^verbatim>\<open>{"room": name, "area": area}\<close>.\<close>

record sroom =
  room :: string
  area :: pyfloat

text \<open>
  The sanitizing loop, with the list \<^verbatim>\<open>sanitized\<close> and the sum \<^verbatim>\<open>total_area\<close> as
  accumulators. The first \<^verbatim>\<open>r.get\<close> is outside the inner \<^verbatim>\<open>try\<close>, the second
  one and \<^verbatim>\<open>float\<close> are inside it.
\<close>

fun sanitize :: "(pyval \<Rightarrow> string) \<Rightarrow> pyval list \<Rightarrow> sroom list \<Rightarrow> pyfloat \<Rightarrow> exn + (sroom list \<times> pyfloat)" where
  "sanitize str_other [] sanitized total_area = Inr (sanitized, total_area)"
| "sanitize str_other (r # rs) sanitized total_area =
     (case dict_get r ''room'' (PStr ''Room'') of
        Inl e \<Rightarrow> Inl e
      | Inr v \<Rightarrow>
          (let name = py_str str_other v;
               a = (case dict_get r ''area'' (PInt 0) of
                      Inl _ \<Rightarrow> Fin 0
                    | Inr av \<Rightarrow> (case py_float av of Inl _ \<Rightarrow> Fin 0 | Inr x \<Rightarrow> x))
           in if fgt a (Fin 0)
              then sanitize str_other rs (sanitized @ [\<lparr>room = name, area = a\<rparr>]) (fadd total_area a)
              else sanitize str_other rs sanitized total_area))"

definition img_w :: int where "img_w = 1500"
definition img_h :: int where "img_h = 1000"
definition padding :: int where "padding = 16"
definition base_row_height :: int where "base_row_height = 200"

text \<open>
  \<^verbatim>\<open>sorted(xs, key=f)\<close> is stable and compares keys with \<^verbatim>\<open><\<close> only: an insertion
  sort that moves an element past the elements with a strictly smaller key.
\<close>

fun insort_lt :: "('a \<Rightarrow> pyfloat) \<Rightarrow> 'a \<Rightarrow> 'a list \<Rightarrow> 'a list" where
  "insort_lt f x [] = [x]"
| "insort_lt f x (y # ys) = (if flt (f y) (f x) then y # insort_lt f x ys else x # y # ys)"

definition py_sorted :: "('a \<Rightarrow> pyfloat) \<Rightarrow> 'a list \<Rightarrow> 'a list" where
  "py_sorted f xs = foldr (insort_lt f) xs []"

definition rooms_sorted :: "sroom list \<Rightarrow> sroom list" where
  "rooms_sorted sanitized = py_sorted (\<lambda>r. fneg (area r)) sanitized"

definition available_area_pixels :: int where
  "available_area_pixels = (img_w - padding * 2) * (img_h - padding * 2)"

definition px_per_sqft :: "pyfloat \<Rightarrow> exn + pyfloat" where
  "px_per_sqft total_area =
     fdiv (fmul (Fin (of_int available_area_pixels)) (Fin (5 / 10000))) (fmax (Fin 1) total_area)"

text \<open>The width and the height of a room's rectangle.\<close>

definition room_size :: "pyfloat \<Rightarrow> pyfloat \<Rightarrow> sroom \<Rightarrow> exn + (int \<times> int)" where
  "room_size pps total_area r =
     (case py_int (fmul (fmul (area r) pps) (Fin (18 / 10))) of
        Inl e \<Rightarrow> Inl e
      | Inr wi \<Rightarrow>
          (case fdiv (area r) total_area of
             Inl e \<Rightarrow> Inl e
           | Inr ratio \<Rightarrow>
               (case py_int (fmul (Fin (of_int base_row_height))
                               (fadd (Fin 1) (fmul ratio (Fin (14 / 10))))) of
                  Inl e \<Rightarrow> Inl e
                | Inr hi \<Rightarrow> Inr (max 60 wi, max 60 hi))))"

text \<open>
  A drawn rectangle: its corner, its size, and the two lines of its label (the room's
  name and \<^verbatim>\<open>int(area)\<close>).
\<close>

record rect =
  rx :: int
  ry :: int
  rw :: int
  rh :: int
  label_name :: string
  label_area :: int

text \<open>
  The state of the placement loop when it is left: the rectangles drawn, the cursor
  \<open>(x, y)\<close>, the height of the current row, and the rooms that were not drawn (the room
  at which the loop executed \<^verbatim>\<open>break\<close> and those after it; none when the loop ran to
  its end).
\<close>

record layout =
  drawn :: "rect list"
  cur_x :: int
  cur_y :: int
  max_row_height :: int
  omitted :: "sroom list"

fun place_rooms :: "pyfloat \<Rightarrow> pyfloat \<Rightarrow> sroom list \<Rightarrow> int \<Rightarrow> int \<Rightarrow> int \<Rightarrow> rect list \<Rightarrow> exn + layout" where
  "place_rooms pps total_area [] x y mrh ds =
     Inr \<lparr>drawn = ds, cur_x = x, cur_y = y, max_row_height = mrh, omitted = []\<rparr>"
| "place_rooms pps total_area (r # rs) x y mrh ds =
     (case room_size pps total_area r of
        Inl e \<Rightarrow> Inl e
      | Inr (w, h) \<Rightarrow>
          (let (x1, y1, mrh1) =
                 (if x + w + padding > img_w then (padding, y + mrh + padding, 0) else (x, y, mrh))
           in if y1 + h + padding > img_h
              then Inr \<lparr>drawn = ds, cur_x = x1, cur_y = y1, max_row_height = mrh1,
                        omitted = r # rs\<rparr>
              else (case py_int (area r) of
                      Inl e \<Rightarrow> Inl e
                    | Inr ia \<Rightarrow>
                        place_rooms pps total_area rs (x1 + w + padding) y1 (max mrh1 h)
                          (ds @ [\<lparr>rx = x1, ry = y1, rw = w, rh = h,
                                  label_name = room r, label_area = ia\<rparr>]))))"

text \<open>
  The responses of \<^verbatim>\<open>generate_blueprint\<close>: the image (its rectangles and the number
  in the footer), the JSON error with status 400 and its message, or the JSON error with
  status 500 and the exception.
\<close>

datatype response =
    Png "rect list" int
  | Error_400 string
  | Error_500 exn

text \<open>\<^verbatim>\<open>generate_blueprint\<close> on the parsed JSON body.\<close>

definition generate_blueprint :: "(pyval \<Rightarrow> string) \<Rightarrow> pyval \<Rightarrow> response" where
  "generate_blueprint str_other payload =
     (case dict_get payload ''rooms'' (PList []) of
        Inl e \<Rightarrow> Error_500 e
      | Inr rooms \<Rightarrow>
          if \<not> truthy rooms \<or> \<not> is_list rooms
          then Error_400 ''No rooms provided or invalid format''
          else (case sanitize str_other (list_items rooms) [] (Fin 0) of
                  Inl e \<Rightarrow> Error_500 e
                | Inr (sanitized, total_area) \<Rightarrow>
                    if fle total_area (Fin 0) then Error_400 ''Total area must be > 0''
                    else (case px_per_sqft total_area of
                            Inl e \<Rightarrow> Error_500 e
                          | Inr pps \<Rightarrow>
                              (case place_rooms pps total_area (rooms_sorted sanitized)
                                      padding padding 0 [] of
                                 Inl e \<Rightarrow> Error_500 e
                               | Inr lay \<Rightarrow>
                                   (case py_int total_area of
                                      Inl e \<Rightarrow> Error_500 e
                                    | Inr t \<Rightarrow> Png (drawn lay) t)))))"

subsection \<open>The sanitizing step in the words of the specification\<close>

text \<open>
  For an entry that is a JSON object, given by its key-value pairs: the name is the
  value under \<^verbatim>\<open>room\<close> coerced to a string, \<^verbatim>\<open>"Room"\<close> when the key is absent; the
  area is the value under \<^verbatim>\<open>area\<close> coerced to a float, 0 when the key is absent or the
  coercion fails. The entries with an area greater than 0 are kept, and the total area is
  the sum of the kept areas.
\<close>

primrec fsum :: "pyfloat list \<Rightarrow> pyfloat" where
  "fsum [] = Fin 0"
| "fsum (a # as) = fadd a (fsum as)"

definition spec_name :: "(pyval \<Rightarrow> string) \<Rightarrow> (string \<times> pyval) list \<Rightarrow> string" where
  "spec_name str_other kvs =
     (case map_of kvs ''room'' of None \<Rightarrow> ''Room'' | Some v \<Rightarrow> py_str str_other v)"

definition spec_area :: "(string \<times> pyval) list \<Rightarrow> pyfloat" where
  "spec_area kvs =
     (case map_of kvs ''area'' of
        None \<Rightarrow> Fin 0
      | Some v \<Rightarrow> (case py_float v of Inl _ \<Rightarrow> Fin 0 | Inr x \<Rightarrow> x))"

definition spec_kept :: "(pyval \<Rightarrow> string) \<Rightarrow> (string \<times> pyval) list list \<Rightarrow> sroom list" where
  "spec_kept str_other entries =
     map (\<lambda>kvs. \<lparr>room = spec_name str_other kvs, area = spec_area kvs\<rparr>)
       (filter (\<lambda>kvs. fgt (spec_area kvs) (Fin 0)) entries)"

definition spec_total :: "(pyval \<Rightarrow> string) \<Rightarrow> (string \<times> pyval) list list \<Rightarrow> pyfloat" where
  "spec_total str_other entries = fsum (map area (spec_kept str_other entries))"

text \<open>The value under \<^verbatim>\<open>rooms\<close> of a body that is a JSON object, \<^verbatim>\<open>[]\<close> when absent.\<close>

definition rooms_value :: "(string \<times> pyval) list \<Rightarrow> pyval" where
  "rooms_value kvs = (case map_of kvs ''rooms'' of None \<Rightarrow> PList [] | Some v \<Rightarrow> v)"

text \<open>A room entry and a request body, as JSON objects.\<close>

definition room_entry :: "string \<Rightarrow> pyval \<Rightarrow> pyval" where
  "room_entry n a = PDict [(''room'', PStr n), (''area'', a)]"

definition request_body :: "pyval list \<Rightarrow> pyval" where
  "request_body rs = PDict [(''rooms'', PList rs)]"

subsection \<open>Containment of a rectangle in the canvas\<close>

definition within_canvas_vertically :: "rect \<Rightarrow> bool" where
  "within_canvas_vertically d =
     (padding \<le> rx d \<and> padding \<le> ry d \<and> ry d + rh d + padding \<le> img_h)"

definition within_canvas_horizontally :: "rect \<Rightarrow> bool" where
  "within_canvas_horizontally d = (rx d + rw d + padding \<le> img_w)"

section \<open>Properties of the input parser\<close>

subsection \<open>Trimming\<close>

lemma strip_empty_iff: "(strip s = []) = (\<forall>c\<in>set s. py_isspace c)"
proof (cases "dropWhile py_isspace s")
  case Nil
  have "strip s = []" unfolding strip_def Nil by simp
  moreover have "\<forall>c\<in>set s. py_isspace c" using Nil by simp
  ultimately show ?thesis by simp
next
  case (Cons x xs)
  then have nx: "\<not> py_isspace x"
    using hd_dropWhile [of py_isspace s] by auto
  have "strip s \<noteq> []"
    unfolding strip_def Cons using nx by simp
  moreover have "\<not> (\<forall>c\<in>set s. py_isspace c)"
  proof
    assume "\<forall>c\<in>set s. py_isspace c"
    then have "dropWhile py_isspace s = []" by simp
    with Cons show False by simp
  qed
  ultimately show ?thesis by simp
qed

lemma trim_decomp:
  "\<exists>a b. s = a @ rev (dropWhile P (rev (dropWhile P s))) @ b
     \<and> (\<forall>c\<in>set a. P c) \<and> (\<forall>c\<in>set b. P c)"
proof -
  let ?X = "dropWhile P s"
  let ?b = "rev (takeWhile P (rev ?X))"
  have "rev (dropWhile P (rev ?X)) @ ?b = rev (takeWhile P (rev ?X) @ dropWhile P (rev ?X))"
    by (simp only: rev_append)
  also have "\<dots> = rev (rev ?X)" by (simp only: takeWhile_dropWhile_id)
  also have "\<dots> = ?X" by (simp only: rev_rev_ident)
  finally have X: "rev (dropWhile P (rev ?X)) @ ?b = ?X" .
  have "takeWhile P s @ ?X = s" by (simp only: takeWhile_dropWhile_id)
  with X have "s = takeWhile P s @ rev (dropWhile P (rev ?X)) @ ?b" by metis
  moreover have "\<forall>c\<in>set (takeWhile P s). P c" by (auto dest: set_takeWhileD)
  moreover have "\<forall>c\<in>set ?b. P c" by (auto dest: set_takeWhileD)
  ultimately show ?thesis by blast
qed

lemma trim_sandwich:
  assumes "t \<noteq> []" "\<not> P (hd t)" "\<not> P (last t)" "\<forall>c\<in>set a. P c" "\<forall>c\<in>set b. P c"
  shows "rev (dropWhile P (rev (dropWhile P (a @ t @ b)))) = t"
proof -
  obtain x t' where t: "t = x # t'" using assms(1) by (cases t) auto
  have 1: "dropWhile P (a @ t @ b) = t @ b"
    using assms(2,4) t by (simp add: dropWhile_append2)
  obtain ys y where ty: "t = ys @ [y]" using assms(1) by (cases t rule: rev_cases) auto
  then have ny: "\<not> P y" using assms(3) by simp
  have "dropWhile P (rev b @ y # rev ys) = dropWhile P (y # rev ys)"
    using assms(5) by (intro dropWhile_append2) simp
  then have 2: "dropWhile P (rev b @ rev t) = rev t"
    using ny ty by simp
  show ?thesis by (simp add: 1 2)
qed

lemma space_lower: "py_isspace c \<Longrightarrow> lower_char c = c"
  by (auto simp: py_isspace_def lower_char_def Let_def)

lemma float_space_is_space: "float_isspace c \<Longrightarrow> py_isspace c"
  by (auto simp: py_isspace_def float_isspace_def Let_def)

lemma digit_not_space: "is_digit c \<Longrightarrow> \<not> py_isspace c"
  by (auto simp: py_isspace_def is_digit_def Let_def)

lemma special_not_space:
  "\<not> py_isspace CHR ''_''" "\<not> py_isspace CHR ''.''" "\<not> py_isspace CHR ''e''"
  "\<not> py_isspace CHR ''E''" "\<not> py_isspace CHR ''+''" "\<not> py_isspace CHR ''-''"
  by (simp_all add: py_isspace_def)

lemma digitpart_chars: "digitpart s \<Longrightarrow> s \<noteq> [] \<and> (\<forall>c\<in>set s. \<not> py_isspace c)"
  by (induction s rule: digitpart.induct)
     (auto simp: digit_not_space special_not_space split: if_splits)

lemma split_sign_cases:
  "split_sign s = (neg, d) \<Longrightarrow> s = d \<or> (\<exists>c. s = c # d \<and> (c = CHR ''-'' \<or> c = CHR ''+''))"
  by (auto simp: split_sign_def split: list.splits if_splits)

lemma split_first_cases:
  assumes h: "split_first P s = (a, r)"
  shows "(r = None \<and> s = a) \<or> (\<exists>c r'. r = Some r' \<and> s = a @ c # r' \<and> P c)"
proof -
  let ?D = "dropWhile (\<lambda>c. \<not> P c) s"
  from h have a: "a = takeWhile (\<lambda>c. \<not> P c) s"
    and r: "r = (case ?D of [] \<Rightarrow> None | _ # r \<Rightarrow> Some r)"
    by (simp_all add: split_first_def)
  have s: "a @ ?D = s" unfolding a by (simp only: takeWhile_dropWhile_id)
  show ?thesis
  proof (cases ?D)
    case Nil
    have "r = None" unfolding r Nil by simp
    moreover have "s = a" using s unfolding Nil by simp
    ultimately show ?thesis by simp
  next
    case (Cons c r')
    have "r = Some r'" unfolding r Cons by simp
    moreover have "s = a @ c # r'" using s unfolding Cons by simp
    moreover have "P c" using hd_dropWhile [of "\<lambda>c. \<not> P c" s] unfolding Cons by simp
    ultimately show ?thesis by blast
  qed
qed

subsection \<open>A string that parses as a number has no whitespace inside\<close>

lemma parse_exponent_chars:
  assumes "parse_exponent (Some ex) = Some k"
  shows "\<forall>c\<in>set ex. \<not> py_isspace c"
proof -
  obtain neg d where sd: "split_sign ex = (neg, d)" by (cases "split_sign ex")
  with assms have "digitpart d"
    by (simp add: parse_exponent_def split: if_splits)
  then have "\<forall>c\<in>set d. \<not> py_isspace c" using digitpart_chars by blast
  then show ?thesis using split_sign_cases [OF sd] by (auto simp: special_not_space)
qed

lemma parse_decimal_chars:
  assumes "parse_decimal u = Some q"
  shows "u \<noteq> [] \<and> (\<forall>c\<in>set u. \<not> py_isspace c)"
proof -
  obtain m e where me: "split_first (\<lambda>c. c = CHR ''e'' \<or> c = CHR ''E'') u = (m, e)"
    by (cases "split_first (\<lambda>c. c = CHR ''e'' \<or> c = CHR ''E'') u")
  obtain ip fp where if': "split_first (\<lambda>c. c = CHR ''.'') m = (ip, fp)"
    by (cases "split_first (\<lambda>c. c = CHR ''.'') m")
  define f where "f = (case fp of None \<Rightarrow> [] | Some f \<Rightarrow> f)"
  from assms me if' have ok: "ip = [] \<or> digitpart ip" "f = [] \<or> digitpart f" "ip @ f \<noteq> []"
    and ex: "parse_exponent e \<noteq> None"
    by (auto simp: parse_decimal_def f_def split: if_splits option.splits)
  have ipc: "\<forall>c\<in>set ip. \<not> py_isspace c" using ok(1) digitpart_chars by fastforce
  have fc: "\<forall>c\<in>set f. \<not> py_isspace c" using ok(2) digitpart_chars by fastforce
  have m: "m \<noteq> [] \<and> (\<forall>c\<in>set m. \<not> py_isspace c)"
    using split_first_cases [OF if'] ipc fc ok(3)
    by (auto simp: f_def special_not_space)
  show ?thesis
  proof (cases e)
    case None
    then show ?thesis using split_first_cases [OF me] m by auto
  next
    case (Some x)
    with ex obtain k where "parse_exponent (Some x) = Some k" by auto
    then have "\<forall>c\<in>set x. \<not> py_isspace c" by (rule parse_exponent_chars)
    then show ?thesis using split_first_cases [OF me] m Some
      by (auto simp: special_not_space)
  qed
qed

lemma lower_word_chars:
  assumes "lower u = w" "w \<noteq> []" "\<forall>c\<in>set w. \<not> py_isspace c"
  shows "u \<noteq> [] \<and> (\<forall>c\<in>set u. \<not> py_isspace c)"
proof -
  have "u \<noteq> []" using assms(1,2) by (auto simp: lower_def)
  moreover have "\<not> py_isspace c" if "c \<in> set u" for c
  proof
    assume sp: "py_isspace c"
    then have "lower_char c = c" by (rule space_lower)
    moreover have "lower_char c \<in> set w" using that assms(1) by (auto simp: lower_def)
    ultimately show False using sp assms(3) by auto
  qed
  ultimately show ?thesis by blast
qed

lemma float_of_str_chars:
  assumes "float_of_str s = Some v"
  shows "float_strip s \<noteq> [] \<and> (\<forall>c\<in>set (float_strip s). \<not> py_isspace c)"
proof -
  obtain neg u where su: "split_sign (float_strip s) = (neg, u)"
    by (cases "split_sign (float_strip s)")
  have "u \<noteq> [] \<and> (\<forall>c\<in>set u. \<not> py_isspace c)"
  proof (cases "lower u = ''inf'' \<or> lower u = ''infinity'' \<or> lower u = ''nan''")
    case True
    then show ?thesis
      by (elim disjE) (rule lower_word_chars, assumption, simp, simp add: py_isspace_def)+
  next
    case False
    with assms su obtain q where "parse_decimal u = Some q"
      by (auto simp: float_of_str_def split: option.splits)
    then show ?thesis by (rule parse_decimal_chars)
  qed
  then show ?thesis using split_sign_cases [OF su] by (auto simp: special_not_space)
qed

lemma float_of_str_cong: "float_strip x = float_strip y \<Longrightarrow> float_of_str x = float_of_str y"
  by (simp add: float_of_str_def)

lemma float_of_str_strip:
  assumes "float_of_str s = Some v"
  shows "strip s \<noteq> [] \<and> float_of_str (strip s) = Some v"
proof -
  let ?t = "float_strip s"
  from float_of_str_chars [OF assms]
  have t: "?t \<noteq> []" and tc: "\<forall>c\<in>set ?t. \<not> py_isspace c" by auto
  then have hl: "\<not> py_isspace (hd ?t)" "\<not> py_isspace (last ?t)" by auto
  then have hl': "\<not> float_isspace (hd ?t)" "\<not> float_isspace (last ?t)"
    using float_space_is_space by blast+
  obtain a b where s: "s = a @ ?t @ b"
    and ab: "\<forall>c\<in>set a. float_isspace c" "\<forall>c\<in>set b. float_isspace c"
    using trim_decomp [of s float_isspace] unfolding float_strip_def by blast
  from ab have ab': "\<forall>c\<in>set a. py_isspace c" "\<forall>c\<in>set b. py_isspace c"
    using float_space_is_space by blast+
  have "strip (a @ ?t @ b) = ?t"
    unfolding strip_def using t hl ab' by (rule trim_sandwich)
  then have st: "strip s = ?t" using s by simp
  have "float_strip ([] @ ?t @ []) = ?t"
    unfolding float_strip_def [of "[] @ ?t @ []"] using t hl' by (rule trim_sandwich) simp_all
  then have "float_strip (strip s) = float_strip s" using st by simp
  then have "float_of_str (strip s) = float_of_str s" by (rule float_of_str_cong)
  then show ?thesis using st t assms by simp
qed

lemma furnishing_numeric:
  "float_of_str s = Some v \<Longrightarrow> parse_value ''furnishingstatus'' (Some s) = Inr v"
  using float_of_str_strip [of s v] by (simp add: parse_value_def)

lemma parse_features_fail:
  "feat \<in> set feats \<Longrightarrow> parse_value feat (form feat) = Inl e \<Longrightarrow>
     \<exists>e'. parse_features form feats vs = Inl e'"
  by (induction feats arbitrary: vs) (auto split: sum.splits)

lemma parse_features_last:
  "parse_features form (pre @ [f]) vs = Inr ws \<Longrightarrow>
     parse_value f (form f) = Inr (last ws) \<and> length ws = length vs + length pre + 1"
  by (induction pre arbitrary: vs) (auto split: sum.splits)

lemma FEATURES_last:
  "FEATURES = butlast FEATURES @ [''furnishingstatus''] \<and> length (butlast FEATURES) = 11"
  by (simp add: FEATURES_def)

text \<open>
  Claim C7. For every field name, \<^verbatim>\<open>parse_value\<close> raises the missing-input error
  exactly when the raw value is absent or empty after trimming; a value made of whitespace
  only is such a value. When any of the twelve required fields fails, \<^verbatim>\<open>predict\<close>
  renders the form with an error whatever the model is: the model is never given a
  partial feature vector.
\<close>

theorem missing_input_iff:
  "((parse_value name raw_value = Inl (MissingInput name)) =
      (raw_value = None \<or> (\<exists>rv. raw_value = Some rv \<and> strip rv = [])))
   \<and> ((\<forall>c\<in>set rv. py_isspace c) \<longrightarrow> parse_value name (Some rv) = Inl (MissingInput name))
   \<and> (feat \<in> set FEATURES \<and> parse_value feat (form feat) = Inl e \<longrightarrow>
        (\<exists>e'. \<forall>model. predict model form = Index_error e'))"
proof (intro conjI impI)
  show "(parse_value name raw_value = Inl (MissingInput name)) =
      (raw_value = None \<or> (\<exists>rv. raw_value = Some rv \<and> strip rv = []))"
    by (cases raw_value)
       (auto simp: parse_value_def Let_def MissingInput_def UnrecognizedCategory_def
          InvalidNumeric_def split: sum.splits option.splits)
next
  assume "\<forall>c\<in>set rv. py_isspace c"
  then have "strip rv = []" by (simp only: strip_empty_iff)
  then show "parse_value name (Some rv) = Inl (MissingInput name)"
    by (simp add: parse_value_def)
next
  assume "feat \<in> set FEATURES \<and> parse_value feat (form feat) = Inl e"
  then obtain e' where "parse_features form FEATURES [] = Inl e'"
    using parse_features_fail by blast
  then have "\<forall>model. predict model form = Index_error e'"
    by (simp add: predict_def)
  then show "\<exists>e'. \<forall>model. predict model form = Index_error e'" ..
qed

text \<open>The theorem at a whitespace-only value, at a value that is present, and at a form without the field \<^verbatim>\<open>parking\<close>.\<close>

theorem missing_input_iff_witness:
  "parse_value ''bedrooms'' (Some [CHR '' '', CHR 0x09]) = Inl (MissingInput ''bedrooms'')
   \<and> parse_value ''bedrooms'' (Some ''3'') \<noteq> Inl (MissingInput ''bedrooms'')
   \<and> (\<exists>e'. \<forall>model. predict model (\<lambda>f. if f = ''parking'' then None else Some ''1'') = Index_error e')"
proof -
  let ?form = "\<lambda>f. if f = ''parking'' then None else Some ''1''"
  have sp: "\<forall>c\<in>set [CHR '' '', CHR 0x09]. py_isspace c" by (simp add: py_isspace_def)
  have mem: "''parking'' \<in> set FEATURES" by (simp add: FEATURES_def)
  have fl: "parse_value ''parking'' (?form ''parking'') = Inl (MissingInput ''parking'')"
    by (simp add: parse_value_def)
  have ne: "strip ''3'' \<noteq> []" by (simp add: strip_def py_isspace_def)
  note t1 = missing_input_iff [of "''bedrooms''" "Some ''3''" "[CHR '' '', CHR 0x09]"
      "''parking''" ?form "MissingInput ''parking''"]
  show ?thesis using t1 sp mem fl ne by simp
qed

text \<open>
  Claim C6. For the field \<^verbatim>\<open>furnishingstatus\<close> the trimmed value is first parsed as a
  number; if that fails it is lower-cased and looked up among \<^verbatim>\<open>unfurnished\<close> (0),
  \<^verbatim>\<open>semi-furnished\<close> (1) and \<^verbatim>\<open>furnished\<close> (2); if it is none of them the error
  is UnrecognizedCategory. The five values of the specification parse as it says.
\<close>

theorem furnishingstatus_steps:
  "parse_value ''furnishingstatus'' (Some rv) =
     (if strip rv = [] then Inl (MissingInput ''furnishingstatus'')
      else case float_of_str (strip rv) of
             Some x \<Rightarrow> Inr x
           | None \<Rightarrow>
               (if lower (strip rv) = ''unfurnished'' then Inr (Fin 0)
                else if lower (strip rv) = ''semi-furnished'' then Inr (Fin 1)
                else if lower (strip rv) = ''furnished'' then Inr (Fin 2)
                else Inl (UnrecognizedCategory (strip rv))))
   \<and> parse_value ''furnishingstatus'' (Some ''furnished'') = Inr (Fin 2)
   \<and> parse_value ''furnishingstatus'' (Some ''semi-furnished'') = Inr (Fin 1)
   \<and> parse_value ''furnishingstatus'' (Some ''unfurnished'') = Inr (Fin 0)
   \<and> parse_value ''furnishingstatus'' (Some ''2'') = Inr (Fin 2)
   \<and> parse_value ''furnishingstatus'' (Some ''penthouse'') = Inl (UnrecognizedCategory ''penthouse'')"
proof (intro conjI)
  show "parse_value ''furnishingstatus'' (Some rv) =
     (if strip rv = [] then Inl (MissingInput ''furnishingstatus'')
      else case float_of_str (strip rv) of
             Some x \<Rightarrow> Inr x
           | None \<Rightarrow>
               (if lower (strip rv) = ''unfurnished'' then Inr (Fin 0)
                else if lower (strip rv) = ''semi-furnished'' then Inr (Fin 1)
                else if lower (strip rv) = ''furnished'' then Inr (Fin 2)
                else Inl (UnrecognizedCategory (strip rv))))"
    by (simp add: parse_value_def Let_def mapping_def split: option.splits)
  show "parse_value ''furnishingstatus'' (Some ''furnished'') = Inr (Fin 2)" by code_simp
  show "parse_value ''furnishingstatus'' (Some ''semi-furnished'') = Inr (Fin 1)" by code_simp
  show "parse_value ''furnishingstatus'' (Some ''unfurnished'') = Inr (Fin 0)" by code_simp
  show "parse_value ''furnishingstatus'' (Some ''2'') = Inr (Fin 2)" by code_simp
  show "parse_value ''furnishingstatus'' (Some ''penthouse'') = Inl (UnrecognizedCategory ''penthouse'')"
    by code_simp
qed

text \<open>The theorem at a value with surrounding blanks and capital letters.\<close>

theorem furnishingstatus_steps_witness:
  "parse_value ''furnishingstatus'' (Some '' Semi-Furnished '') = Inr (Fin 1)"
proof -
  have s: "strip '' Semi-Furnished '' = ''Semi-Furnished''" by code_simp
  have f: "float_of_str ''Semi-Furnished'' = None" by code_simp
  have l: "lower ''Semi-Furnished'' = ''semi-furnished''" by code_simp
  show ?thesis using furnishingstatus_steps [of "'' Semi-Furnished ''"] by (simp add: s f l)
qed

text \<open>
  Claim C10. Every string that \<^verbatim>\<open>float\<close> accepts is accepted for
  \<^verbatim>\<open>furnishingstatus\<close> with the value \<^verbatim>\<open>float\<close> gives it, whatever its range;
  the value is the twelfth and last component of the vector the model is applied to.
  In particular \<^verbatim>\<open>"7"\<close> yields 7.0 and \<^verbatim>\<open>"-1"\<close> yields -1.0.
\<close>

theorem furnishingstatus_numeric_verbatim:
  "(float_of_str s = Some v \<longrightarrow>
      parse_value ''furnishingstatus'' (Some s) = Inr v
      \<and> (form ''furnishingstatus'' = Some s \<and> parse_features form FEATURES [] = Inr ws \<longrightarrow>
           length ws = 12 \<and> last ws = v
           \<and> predict model form =
               (case model ws of
                  Inl e \<Rightarrow> Index_error e
                | Inr pred \<Rightarrow>
                    (case format_prediction pred of
                       Inl e \<Rightarrow> Index_error e
                     | Inr text \<Rightarrow>
                         Estimate text
                           (case form ''area'' of None \<Rightarrow> None | Some a \<Rightarrow> float_of_str a)))))
   \<and> parse_value ''furnishingstatus'' (Some ''7'') = Inr (Fin 7)
   \<and> parse_value ''furnishingstatus'' (Some ''-1'') = Inr (Fin (- 1))"
proof (intro conjI impI)
  assume fs: "float_of_str s = Some v"
  then show pv: "parse_value ''furnishingstatus'' (Some s) = Inr v"
    by (rule furnishing_numeric)
  assume h: "form ''furnishingstatus'' = Some s \<and> parse_features form FEATURES [] = Inr ws"
  then have "parse_features form (butlast FEATURES @ [''furnishingstatus'']) [] = Inr ws"
    using FEATURES_last by simp
  from parse_features_last [OF this] h pv FEATURES_last
  show "length ws = 12" and "last ws = v" by simp_all
  from h show "predict model form =
               (case model ws of
                  Inl e \<Rightarrow> Index_error e
                | Inr pred \<Rightarrow>
                    (case format_prediction pred of
                       Inl e \<Rightarrow> Index_error e
                     | Inr text \<Rightarrow>
                         Estimate text
                           (case form ''area'' of None \<Rightarrow> None | Some a \<Rightarrow> float_of_str a)))"
    by (simp add: predict_def)
next
  show "parse_value ''furnishingstatus'' (Some ''7'') = Inr (Fin 7)" by code_simp
  show "parse_value ''furnishingstatus'' (Some ''-1'') = Inr (Fin (- 1))" by code_simp
qed

text \<open>The theorem at the value \<^verbatim>\<open>" 42.5 "\<close> with a model that returns the last feature.\<close>

theorem furnishingstatus_numeric_verbatim_witness:
  "parse_value ''furnishingstatus'' (Some '' 42.5 '') = Inr (Fin (85 / 2))
   \<and> predict (\<lambda>vs. Inr (PFloat (last vs))) (\<lambda>f. Some '' 42.5 '') = Estimate ''0.00 L'' (Some (Fin (85 / 2)))"
proof -
  let ?form = "\<lambda>f::string. Some '' 42.5 ''"
  let ?ws = "replicate 12 (Fin (85 / 2))"
  have f: "float_of_str '' 42.5 '' = Some (Fin (85 / 2))" by code_simp
  have p: "parse_features ?form FEATURES [] = Inr ?ws" by code_simp
  have g: "format_prediction (PFloat (Fin (85 / 2))) = Inr ''0.00 L''" by code_simp
  show ?thesis
    using furnishingstatus_numeric_verbatim [of "'' 42.5 ''" "Fin (85 / 2)" ?form ?ws
        "\<lambda>vs. Inr (PFloat (last vs))"] f p g
    by simp
qed

section \<open>Properties of the prediction handler\<close>

text \<open>
  Claim C1. When \<^verbatim>\<open>float(pred)\<close> succeeds the text is the output divided by 100000,
  formatted to two decimals, with the suffix \<^verbatim>\<open>" L"\<close>. When it raises, the handler
  of the inner \<^verbatim>\<open>try\<close> evaluates \<^verbatim>\<open>float(pred)\<close> again and raises the same
  exception: the fallback produces no text.
\<close>

theorem format_prediction_fallback_fails:
  "(py_float pred = Inr p \<longrightarrow>
      format_prediction pred = Inr (fmt2 (fquot p (Fin 100000)) @ '' L''))
   \<and> (py_float pred = Inl e \<longrightarrow>
        format_prediction pred = Inl e
        \<and> (parse_features form FEATURES [] = Inr vs \<and> model vs = Inr pred \<longrightarrow>
             predict model form = Index_error e))
   \<and> (format_prediction pred = Inr text \<longrightarrow>
        (\<exists>p. py_float pred = Inr p \<and> text = fmt2 (fquot p (Fin 100000)) @ '' L''))"
proof (intro conjI impI)
  assume "py_float pred = Inr p"
  then show "format_prediction pred = Inr (fmt2 (fquot p (Fin 100000)) @ '' L'')"
    by (simp add: format_prediction_def fdiv_def)
next
  assume e: "py_float pred = Inl e"
  then show f: "format_prediction pred = Inl e"
    by (simp add: format_prediction_def)
  assume "parse_features form FEATURES [] = Inr vs \<and> model vs = Inr pred"
  then show "predict model form = Index_error e"
    using f by (simp add: predict_def)
next
  assume t: "format_prediction pred = Inr text"
  show "\<exists>p. py_float pred = Inr p \<and> text = fmt2 (fquot p (Fin 100000)) @ '' L''"
  proof (cases "py_float pred")
    case (Inl e)
    then have "format_prediction pred = Inl e" by (simp add: format_prediction_def)
    with t show ?thesis by simp
  next
    case (Inr p)
    then have "format_prediction pred = Inr (fmt2 (fquot p (Fin 100000)) @ '' L'')"
      by (simp add: format_prediction_def fdiv_def)
    with t Inr show ?thesis by simp
  qed
qed

text \<open>
  The theorem at the outputs \<^verbatim>\<open>5000000.0\<close> and \<^verbatim>\<open>"abc"\<close>; for the second one the
  request, with a form whose twelve fields are \<^verbatim>\<open>"1"\<close>, ends on the error page.
\<close>

theorem format_prediction_fallback_fails_witness:
  "format_prediction (PFloat (Fin 5000000)) = Inr ''50.00 L''
   \<and> format_prediction (PStr ''abc'') = Inl (CouldNotConvertToFloat (PStr ''abc''))
   \<and> predict (\<lambda>vs. Inr (PStr ''abc'')) (\<lambda>f. Some ''1'')
       = Index_error (CouldNotConvertToFloat (PStr ''abc''))"
proof -
  let ?e = "CouldNotConvertToFloat (PStr ''abc'')"
  let ?form = "\<lambda>f::string. Some ''1''"
  let ?model = "\<lambda>vs::pyfloat list. (Inr (PStr ''abc'') :: exn + pyval)"
  have a: "py_float (PStr ''abc'') = Inl ?e" by code_simp
  have b: "fmt2 (fquot (Fin 5000000) (Fin 100000)) = ''50.00''" by code_simp
  have c: "parse_features ?form FEATURES [] = Inr (replicate 12 (Fin 1))
      \<and> ?model (replicate 12 (Fin 1)) = Inr (PStr ''abc'')"
    by code_simp
  have f: "py_float (PFloat (Fin 5000000)) = Inr (Fin 5000000)" by simp
  note T1 = format_prediction_fallback_fails [where pred = "PFloat (Fin 5000000)"
      and p = "Fin 5000000", THEN conjunct1, THEN mp, OF f]
  note T2 = format_prediction_fallback_fails [where pred = "PStr ''abc''" and e = ?e
      and form = ?form and vs = "replicate 12 (Fin 1)" and model = ?model,
      THEN conjunct2, THEN conjunct1, THEN mp, OF a]
  have 1: "format_prediction (PFloat (Fin 5000000)) = Inr ''50.00 L''"
    using T1 unfolding b by simp
  have 2: "format_prediction (PStr ''abc'') = Inl ?e"
    by (rule T2 [THEN conjunct1])
  have 3: "predict ?model ?form = Index_error ?e"
    by (rule T2 [THEN conjunct2, THEN mp, OF c])
  show ?thesis using 1 2 3 by (intro conjI)
qed

section \<open>Properties of the blueprint layout engine\<close>

subsection \<open>Sanitizing\<close>

lemma fadd_zero_left: "fadd (Fin 0) x = x"
  by (cases x) auto

lemma fadd_assoc: "fadd (fadd a b) c = fadd a (fadd b c)"
  by (cases a; cases b; cases c) auto

lemma dict_get_PDict:
  "dict_get (PDict kvs) k d = Inr (case map_of kvs k of None \<Rightarrow> d | Some v \<Rightarrow> v)"
  by (simp add: dict_get_def)

lemma dict_get_Inr: "dict_get r k d = Inr v \<Longrightarrow> \<exists>kvs. r = PDict kvs"
  by (cases r) (auto simp: dict_get_def)

lemma sanitize_step_area:
  "(case dict_get (PDict kvs) ''area'' (PInt 0) of
      Inl _ \<Rightarrow> Fin 0
    | Inr av \<Rightarrow> (case py_float av of Inl _ \<Rightarrow> Fin 0 | Inr x \<Rightarrow> x)) = spec_area kvs"
  by (simp add: dict_get_def spec_area_def split: option.splits)

lemma sanitize_step_name:
  "dict_get (PDict kvs) ''room'' (PStr ''Room'') = Inr v \<Longrightarrow> py_str so v = spec_name so kvs"
  by (auto simp: dict_get_def spec_name_def py_str_def split: option.splits)

lemma sanitize_PDict:
  "sanitize so (PDict kvs # rs) acc tot =
     (if fgt (spec_area kvs) (Fin 0)
      then sanitize so rs (acc @ [\<lparr>room = spec_name so kvs, area = spec_area kvs\<rparr>])
             (fadd tot (spec_area kvs))
      else sanitize so rs acc tot)"
  by (simp add: dict_get_def spec_area_def spec_name_def py_str_def Let_def
        split: option.splits)

lemma spec_kept_Cons:
  "spec_kept so (kvs # es) =
     (if fgt (spec_area kvs) (Fin 0)
      then \<lparr>room = spec_name so kvs, area = spec_area kvs\<rparr> # spec_kept so es
      else spec_kept so es)"
  by (simp add: spec_kept_def)

lemma sanitize_acc:
  "sanitize so (map PDict es) acc tot =
     Inr (acc @ spec_kept so es, fadd tot (spec_total so es))"
proof (induction es arbitrary: acc tot)
  case Nil
  show ?case by (cases tot) (simp_all add: spec_kept_def spec_total_def)
next
  case (Cons kvs es)
  show ?case
  proof (cases "fgt (spec_area kvs) (Fin 0)")
    case True
    have "sanitize so (map PDict (kvs # es)) acc tot =
        sanitize so (map PDict es) (acc @ [\<lparr>room = spec_name so kvs, area = spec_area kvs\<rparr>])
          (fadd tot (spec_area kvs))"
      using True by (simp only: list.map sanitize_PDict if_True)
    also have "\<dots> = Inr ((acc @ [\<lparr>room = spec_name so kvs, area = spec_area kvs\<rparr>]) @ spec_kept so es,
        fadd (fadd tot (spec_area kvs)) (spec_total so es))"
      by (rule Cons.IH)
    also have "\<dots> = Inr (acc @ spec_kept so (kvs # es), fadd tot (spec_total so (kvs # es)))"
      using True by (simp add: spec_kept_Cons spec_total_def fadd_assoc)
    finally show ?thesis .
  next
    case False
    have "sanitize so (map PDict (kvs # es)) acc tot = sanitize so (map PDict es) acc tot"
      using False by (simp only: list.map sanitize_PDict if_False)
    also have "\<dots> = Inr (acc @ spec_kept so es, fadd tot (spec_total so es))"
      by (rule Cons.IH)
    also have "\<dots> = Inr (acc @ spec_kept so (kvs # es), fadd tot (spec_total so (kvs # es)))"
      using False by (simp add: spec_kept_Cons spec_total_def)
    finally show ?thesis .
  qed
qed

lemma sanitize_dicts:
  "sanitize so rs acc tot = Inr res \<Longrightarrow> \<exists>es. rs = map PDict es"
proof (induction rs arbitrary: acc tot)
  case Nil
  then show ?case by simp
next
  case (Cons r rs)
  from Cons.prems obtain v where "dict_get r ''room'' (PStr ''Room'') = Inr v"
    by (auto split: sum.splits)
  then obtain kvs where r: "r = PDict kvs" using dict_get_Inr by blast
  from Cons.prems obtain acc' tot' where "sanitize so rs acc' tot' = Inr res"
    by (auto simp: Let_def split: sum.splits if_splits)
  then obtain es where "rs = map PDict es" using Cons.IH by blast
  with r have "r # rs = map PDict (kvs # es)" by simp
  then show ?case by (rule exI)
qed

lemma sanitize_non_dict:
  "r \<in> set rs \<Longrightarrow> \<forall>kvs. r \<noteq> PDict kvs \<Longrightarrow> \<exists>e. sanitize so rs acc tot = Inl e"
  using sanitize_dicts [of so rs acc tot]
  by (cases "sanitize so rs acc tot") auto

text \<open>The request of the specification with the rooms Hall and Kitchen.\<close>

lemma hall_kitchen_blueprint:
  "generate_blueprint str_other
        (request_body [room_entry ''Hall'' (PInt 500), room_entry ''Kitchen'' (PInt 100)]) =
       Png [\<lparr>rx = 16, ry = 16, rw = 1065, rh = 433, label_name = ''Hall'', label_area = 500\<rparr>,
            \<lparr>rx = 1097, ry = 16, rw = 213, rh = 246, label_name = ''Kitchen'', label_area = 100\<rparr>]
         600"
  by code_simp




subsection \<open>The order of floats\<close>

lemma flt_irrefl: "\<not> flt a a"
  by (cases a) auto

lemma flt_asym: "flt a b \<Longrightarrow> \<not> flt b a"
  by (cases a; cases b) auto

lemma flt_negtrans: "b \<noteq> NaN \<Longrightarrow> flt c a \<Longrightarrow> flt c b \<or> flt b a"
  by (cases a; cases b; cases c) auto

lemma flt_fneg: "flt (fneg a) (fneg b) = flt b a"
  by (cases a; cases b) auto

lemma fneg_inj: "(fneg a = fneg b) = (a = b)"
  by (cases a; cases b) auto

lemma fgt_not_NaN: "fgt a b \<Longrightarrow> a \<noteq> NaN"
  by (cases a; cases b) (auto simp: fgt_def)

subsection \<open>The stable sort\<close>

lemma mset_insort_lt: "mset (insort_lt f x ys) = add_mset x (mset ys)"
  by (induction ys) auto

lemma set_insort_lt: "set (insort_lt f x ys) = insert x (set ys)"
  by (induction ys) auto

lemma mset_py_sorted: "mset (py_sorted f xs) = mset xs"
  by (induction xs) (auto simp: py_sorted_def mset_insort_lt)

lemma filter_insort_lt_eq:
  "f x = k \<Longrightarrow> filter (\<lambda>y. f y = k) (insort_lt f x ys) = x # filter (\<lambda>y. f y = k) ys"
  by (induction ys) (auto simp: flt_irrefl)

lemma filter_insort_lt_neq:
  "f x \<noteq> k \<Longrightarrow> filter (\<lambda>y. f y = k) (insort_lt f x ys) = filter (\<lambda>y. f y = k) ys"
  by (induction ys) auto

lemma py_sorted_stable: "filter (\<lambda>y. f y = k) (py_sorted f xs) = filter (\<lambda>y. f y = k) xs"
proof (induction xs)
  case Nil
  show ?case by (simp add: py_sorted_def)
next
  case (Cons x xs)
  have "py_sorted f (x # xs) = insort_lt f x (py_sorted f xs)" by (simp add: py_sorted_def)
  then show ?case using Cons
    by (cases "f x = k") (simp_all add: filter_insort_lt_eq filter_insort_lt_neq)
qed

lemma sorted_insort_lt:
  assumes "\<forall>y\<in>set ys. f y \<noteq> NaN" "sorted_wrt (\<lambda>r s. \<not> flt (f s) (f r)) ys"
  shows "sorted_wrt (\<lambda>r s. \<not> flt (f s) (f r)) (insort_lt f x ys)"
  using assms
proof (induction ys)
  case Nil
  show ?case by simp
next
  case (Cons y ys)
  show ?case
  proof (cases "flt (f y) (f x)")
    case True
    then have "\<not> flt (f x) (f y)" by (rule flt_asym)
    then show ?thesis using True Cons by (auto simp: set_insort_lt)
  next
    case False
    have "\<not> flt (f z) (f x)" if "z \<in> set ys" for z
    proof
      assume "flt (f z) (f x)"
      moreover have "f y \<noteq> NaN" using Cons.prems by simp
      ultimately have "flt (f z) (f y) \<or> flt (f y) (f x)" by (rule flt_negtrans [rotated])
      then show False using False Cons.prems that by auto
    qed
    then show ?thesis using False Cons.prems by auto
  qed
qed

lemma sorted_py_sorted:
  "\<forall>x\<in>set xs. f x \<noteq> NaN \<Longrightarrow> sorted_wrt (\<lambda>r s. \<not> flt (f s) (f r)) (py_sorted f xs)"
proof (induction xs)
  case Nil
  show ?case by (simp add: py_sorted_def)
next
  case (Cons x xs)
  have "\<forall>y\<in>set (py_sorted f xs). f y \<noteq> NaN"
    using Cons.prems mset_py_sorted [of f xs] by (metis list.set_intros(2) set_mset_mset)
  moreover have "sorted_wrt (\<lambda>r s. \<not> flt (f s) (f r)) (py_sorted f xs)"
    using Cons by simp
  ultimately have "sorted_wrt (\<lambda>r s. \<not> flt (f s) (f r)) (insort_lt f x (py_sorted f xs))"
    by (rule sorted_insort_lt)
  then show ?case by (simp add: py_sorted_def)
qed

lemma spec_kept_positive: "r \<in> set (spec_kept so es) \<Longrightarrow> fgt (area r) (Fin 0)"
  by (auto simp: spec_kept_def)

lemma sanitize_positive:
  assumes "sanitize so rs [] (Fin 0) = Inr (sanitized, tot)"
  shows "\<forall>r\<in>set sanitized. fgt (area r) (Fin 0)"
proof -
  obtain es where "rs = map PDict es" using sanitize_dicts [OF assms] by blast
  with assms have "sanitized = spec_kept so es"
    using sanitize_acc [of so es "[]" "Fin 0"] by simp
  then show ?thesis using spec_kept_positive by blast
qed

lemma rooms_sorted_descending:
  assumes "\<forall>r\<in>set xs. fgt (area r) (Fin 0)"
  shows "sorted_wrt (\<lambda>r s. fle (area s) (area r)) (rooms_sorted xs)"
proof -
  have nn: "\<forall>r\<in>set xs. area r \<noteq> NaN" using assms fgt_not_NaN by blast
  then have "\<forall>r\<in>set xs. fneg (area r) \<noteq> NaN"
    by (metis fneg.simps(4) fneg_inj)
  then have "sorted_wrt (\<lambda>r s. \<not> flt (fneg (area s)) (fneg (area r))) (rooms_sorted xs)"
    unfolding rooms_sorted_def by (rule sorted_py_sorted)
  then have "sorted_wrt (\<lambda>r s. \<not> flt (area r) (area s)) (rooms_sorted xs)"
    by (simp add: flt_fneg)
  moreover have "set (rooms_sorted xs) = set xs"
    using mset_py_sorted [of "\<lambda>r. fneg (area r)" xs] unfolding rooms_sorted_def
    by (metis set_mset_mset)
  ultimately show ?thesis using nn
    by (auto simp: fle_def elim!: sorted_wrt_mono_rel [rotated])
qed

text \<open>
  Claim C3. The placement order is a permutation of the sanitized list, descending in
  the area, and stable: the rooms of any one area keep their relative order. For
  the rooms Hall (500) and Kitchen (100), Hall is placed before Kitchen.
\<close>

theorem placement_order_stable_descending:
  "(sanitize str_other rs [] (Fin 0) = Inr (sanitized, total_area) \<longrightarrow>
      mset (rooms_sorted sanitized) = mset sanitized
      \<and> sorted_wrt (\<lambda>r s. fle (area s) (area r)) (rooms_sorted sanitized)
      \<and> (\<forall>a. filter (\<lambda>r. area r = a) (rooms_sorted sanitized) = filter (\<lambda>r. area r = a) sanitized))
   \<and> generate_blueprint str_other
        (request_body [room_entry ''Hall'' (PInt 500), room_entry ''Kitchen'' (PInt 100)]) =
       Png [\<lparr>rx = 16, ry = 16, rw = 1065, rh = 433, label_name = ''Hall'', label_area = 500\<rparr>,
            \<lparr>rx = 1097, ry = 16, rw = 213, rh = 246, label_name = ''Kitchen'', label_area = 100\<rparr>]
         600"
proof (intro conjI impI allI)
  assume s: "sanitize str_other rs [] (Fin 0) = Inr (sanitized, total_area)"
  show "mset (rooms_sorted sanitized) = mset sanitized"
    by (simp add: rooms_sorted_def mset_py_sorted)
  show "sorted_wrt (\<lambda>r s. fle (area s) (area r)) (rooms_sorted sanitized)"
    using sanitize_positive [OF s] by (rule rooms_sorted_descending)
  fix a
  have "filter (\<lambda>r. fneg (area r) = fneg a) (rooms_sorted sanitized)
      = filter (\<lambda>r. fneg (area r) = fneg a) sanitized"
    unfolding rooms_sorted_def by (rule py_sorted_stable)
  then show "filter (\<lambda>r. area r = a) (rooms_sorted sanitized) = filter (\<lambda>r. area r = a) sanitized"
    by (simp add: fneg_inj)
next
  show "generate_blueprint str_other
        (request_body [room_entry ''Hall'' (PInt 500), room_entry ''Kitchen'' (PInt 100)]) =
       Png [\<lparr>rx = 16, ry = 16, rw = 1065, rh = 433, label_name = ''Hall'', label_area = 500\<rparr>,
            \<lparr>rx = 1097, ry = 16, rw = 213, rh = 246, label_name = ''Kitchen'', label_area = 100\<rparr>]
         600"
    by (rule hall_kitchen_blueprint)
qed

subsection \<open>Validation\<close>

lemma fsum_positive:
  "\<forall>x\<in>set xs. fgt x (Fin 0) \<Longrightarrow>
     (xs = [] \<and> fsum xs = Fin 0) \<or> (xs \<noteq> [] \<and> (fsum xs = PInf \<or> (\<exists>t. fsum xs = Fin t \<and> 0 < t)))"
proof (induction xs)
  case Nil
  show ?case by simp
next
  case (Cons x xs)
  then have x: "fgt x (Fin 0)" by simp
  from Cons have "fsum xs = Fin 0 \<or> fsum xs = PInf \<or> (\<exists>t. fsum xs = Fin t \<and> 0 < t)" by auto
  then show ?case using x by (cases x) (auto simp: fgt_def)
qed

lemma spec_total_le_zero:
  "fle (spec_total so es) (Fin 0) = (\<forall>kvs\<in>set es. \<not> fgt (spec_area kvs) (Fin 0))"
proof -
  have pos: "\<forall>x\<in>set (map area (spec_kept so es)). fgt x (Fin 0)"
    using spec_kept_positive by auto
  have "fle (spec_total so es) (Fin 0) = (spec_kept so es = [])"
    using fsum_positive [OF pos] unfolding spec_total_def by (auto simp: fle_def)
  also have "\<dots> = (\<forall>kvs\<in>set es. \<not> fgt (spec_area kvs) (Fin 0))"
    by (auto simp: spec_kept_def filter_empty_conv)
  finally show ?thesis .
qed

lemma generate_blueprint_400_iff:
  "(\<exists>m. generate_blueprint so (PDict kvs) = Error_400 m) =
     (\<not> truthy (rooms_value kvs) \<or> \<not> is_list (rooms_value kvs)
      \<or> (\<exists>es. rooms_value kvs = PList (map PDict es) \<and> fle (spec_total so es) (Fin 0)))"
proof (cases "\<not> truthy (rooms_value kvs) \<or> \<not> is_list (rooms_value kvs)")
  case True
  then show ?thesis
    by (auto simp: generate_blueprint_def dict_get_def rooms_value_def)
next
  case False
  then obtain rs where rs: "rooms_value kvs = PList rs" by (cases "rooms_value kvs") auto
  have gb: "generate_blueprint so (PDict kvs) =
     (case sanitize so rs [] (Fin 0) of
        Inl e \<Rightarrow> Error_500 e
      | Inr (sanitized, total_area) \<Rightarrow>
          if fle total_area (Fin 0) then Error_400 ''Total area must be > 0''
          else (case px_per_sqft total_area of
                  Inl e \<Rightarrow> Error_500 e
                | Inr pps \<Rightarrow>
                    (case place_rooms pps total_area (rooms_sorted sanitized) padding padding 0 [] of
                       Inl e \<Rightarrow> Error_500 e
                     | Inr lay \<Rightarrow>
                         (case py_int total_area of
                            Inl e \<Rightarrow> Error_500 e
                          | Inr t \<Rightarrow> Png (drawn lay) t))))"
    using False rs unfolding generate_blueprint_def dict_get_def rooms_value_def
    by (simp split: option.splits)
  show ?thesis
  proof (cases "\<exists>es. rs = map PDict es")
    case True
    then obtain es where es: "rs = map PDict es" ..
    have inj: "map PDict es = map PDict es' \<Longrightarrow> es = es'" for es'
      by (simp add: inj_on_def inj_map_eq_map [unfolded inj_on_def])
    have "(\<exists>m. generate_blueprint so (PDict kvs) = Error_400 m) = fle (spec_total so es) (Fin 0)"
      unfolding gb es sanitize_acc [of so es "[]" "Fin 0"]
      by (simp add: fadd_zero_left split: sum.splits)
    also have "\<dots> = (\<exists>es'. rooms_value kvs = PList (map PDict es') \<and> fle (spec_total so es') (Fin 0))"
      using rs es inj by auto
    finally show ?thesis using False by simp
  next
    case nd: False
    then have "\<exists>e. sanitize so rs [] (Fin 0) = Inl e"
      using sanitize_dicts [of so rs "[]" "Fin 0"] by (cases "sanitize so rs [] (Fin 0)") auto
    then have "\<not> (\<exists>m. generate_blueprint so (PDict kvs) = Error_400 m)"
      unfolding gb by auto
    then show ?thesis using False nd rs by auto
  qed
qed

text \<open>
  Claim C4. For a body that is a JSON object, the response is the client error (status
  400) exactly when the value under \<^verbatim>\<open>rooms\<close> is empty, is not a list, or is a list
  of room objects whose total area is not greater than 0, which is the case exactly when
  no entry has an area greater than 0. The bodies with \<^verbatim>\<open>rooms: []\<close> and with the
  single room of area -5 both yield the client error.
\<close>

theorem client_error_iff:
  "((\<exists>m. generate_blueprint str_other (PDict kvs) = Error_400 m) =
      (\<not> truthy (rooms_value kvs) \<or> \<not> is_list (rooms_value kvs)
       \<or> (\<exists>es. rooms_value kvs = PList (map PDict es) \<and> fle (spec_total str_other es) (Fin 0))))
   \<and> (fle (spec_total str_other es) (Fin 0) = (\<forall>e\<in>set es. \<not> fgt (spec_area e) (Fin 0)))
   \<and> (\<exists>m. generate_blueprint str_other (request_body []) = Error_400 m)
   \<and> (\<exists>m. generate_blueprint str_other (request_body [room_entry ''A'' (PInt (- 5))]) = Error_400 m)"
proof (intro conjI)
  show "(\<exists>m. generate_blueprint str_other (PDict kvs) = Error_400 m) =
      (\<not> truthy (rooms_value kvs) \<or> \<not> is_list (rooms_value kvs)
       \<or> (\<exists>es. rooms_value kvs = PList (map PDict es) \<and> fle (spec_total str_other es) (Fin 0)))"
    by (rule generate_blueprint_400_iff)
  show "fle (spec_total str_other es) (Fin 0) = (\<forall>e\<in>set es. \<not> fgt (spec_area e) (Fin 0))"
    by (rule spec_total_le_zero)
  show "\<exists>m. generate_blueprint str_other (request_body []) = Error_400 m"
    by (simp add: generate_blueprint_def request_body_def dict_get_def)
  have "generate_blueprint str_other (request_body [room_entry ''A'' (PInt (- 5))])
      = Error_400 ''Total area must be > 0''"
    by (simp add: generate_blueprint_def request_body_def room_entry_def dict_get_def
          py_str_def fgt_def fle_def)
  then show "\<exists>m. generate_blueprint str_other (request_body [room_entry ''A'' (PInt (- 5))]) = Error_400 m"
    ..
qed

text \<open>
  The theorem at a value that is not a list, at a list with a nan and a missing area, and
  at a list with one positive area, where the response is not the client error.
\<close>

theorem client_error_iff_witness:
  "(\<exists>m. generate_blueprint (\<lambda>v. []) (PDict [(''rooms'', PStr ''kitchen'')]) = Error_400 m)
   \<and> (\<exists>m. generate_blueprint (\<lambda>v. [])
          (PDict [(''rooms'', PList [PDict [(''area'', PStr ''nan'')], PDict [(''room'', PStr ''B'')]])])
        = Error_400 m)
   \<and> \<not> (\<exists>m. generate_blueprint (\<lambda>v. [])
          (PDict [(''rooms'', PList [PDict [(''area'', PInt 0)], PDict [(''area'', PInt 7)]])])
        = Error_400 m)"
proof -
  let ?k1 = "[(''rooms'', PStr ''kitchen'')]"
  let ?e2 = "[[(''area'', PStr ''nan'')], [(''room'', PStr ''B'')]]"
  let ?k2 = "[(''rooms'', PList (map PDict ?e2))]"
  let ?e3 = "[[(''area'', PInt 0)], [(''area'', PInt 7)]]"
  let ?k3 = "[(''rooms'', PList (map PDict ?e3))]"
  have inj: "map PDict es = map PDict es' \<Longrightarrow> es = es'" for es es'
    by (simp add: inj_on_def inj_map_eq_map [unfolded inj_on_def])
  have a2: "spec_area [(''area'', PStr ''nan'')] = NaN" by code_simp
  have b2: "spec_area [(''room'', PStr ''B'')] = Fin 0" by code_simp
  have a3: "spec_area [(''area'', PInt 7)] = Fin 7" by code_simp
  have 1: "\<exists>m. generate_blueprint (\<lambda>v. []) (PDict ?k1) = Error_400 m"
    using client_error_iff [of "\<lambda>v. []" ?k1 "[]"] by (simp add: rooms_value_def)
  have t2: "fle (spec_total (\<lambda>v. []) ?e2) (Fin 0)"
    using client_error_iff [of "\<lambda>v. []" ?k1 ?e2] by (simp add: a2 b2 fgt_def)
  have 2: "\<exists>m. generate_blueprint (\<lambda>v. []) (PDict ?k2) = Error_400 m"
    using client_error_iff [of "\<lambda>v. []" ?k2 "[]"] t2 by (auto simp: rooms_value_def)
  have t3: "\<not> fle (spec_total (\<lambda>v. []) ?e3) (Fin 0)"
    using client_error_iff [of "\<lambda>v. []" ?k1 ?e3] by (simp add: a3 fgt_def)
  have 3: "\<not> (\<exists>m. generate_blueprint (\<lambda>v. []) (PDict ?k3) = Error_400 m)"
    using client_error_iff [of "\<lambda>v. []" ?k3 "[]"] t3 inj [of _ ?e3]
    by (auto simp: rooms_value_def)
  show ?thesis using 1 2 3 by simp
qed

text \<open>The theorem at three rooms of which the first and the last have the same area.\<close>

theorem placement_order_stable_descending_witness:
  "mset (rooms_sorted [\<lparr>room = ''A'', area = Fin 100\<rparr>, \<lparr>room = ''B'', area = Fin 500\<rparr>,
        \<lparr>room = ''C'', area = Fin 100\<rparr>])
     = mset [\<lparr>room = ''A'', area = Fin 100\<rparr>, \<lparr>room = ''B'', area = Fin 500\<rparr>,
        \<lparr>room = ''C'', area = Fin 100\<rparr>]
   \<and> filter (\<lambda>r. area r = Fin 100)
        (rooms_sorted [\<lparr>room = ''A'', area = Fin 100\<rparr>, \<lparr>room = ''B'', area = Fin 500\<rparr>,
           \<lparr>room = ''C'', area = Fin 100\<rparr>])
     = [\<lparr>room = ''A'', area = Fin 100\<rparr>, \<lparr>room = ''C'', area = Fin 100\<rparr>]"
proof -
  let ?rs = "[room_entry ''A'' (PInt 100), room_entry ''B'' (PInt 500), room_entry ''C'' (PInt 100)]"
  let ?S = "[\<lparr>room = ''A'', area = Fin 100\<rparr>, \<lparr>room = ''B'', area = Fin 500\<rparr>,
        \<lparr>room = ''C'', area = Fin 100\<rparr>]"
  have s: "sanitize (\<lambda>v. []) ?rs [] (Fin 0) = Inr (?S, Fin 700)"
    by (simp add: room_entry_def dict_get_def py_str_def fgt_def Let_def)
  show ?thesis
    using placement_order_stable_descending [of "\<lambda>v. []" ?rs ?S "Fin 700"] s by simp
qed

subsection \<open>The size of a rectangle\<close>

lemma fsum_Fin_bound:
  "\<forall>x\<in>set xs. fgt x (Fin 0) \<Longrightarrow> fsum xs = Fin t \<Longrightarrow>
     \<forall>x\<in>set xs. \<exists>a. x = Fin a \<and> 0 < a \<and> a \<le> t"
proof (induction xs arbitrary: t)
  case Nil
  show ?case by simp
next
  case (Cons x xs)
  have pos: "\<forall>y\<in>set xs. fgt y (Fin 0)" using Cons.prems(1) by simp
  have x: "fgt x (Fin 0)" using Cons.prems(1) by simp
  from fsum_positive [OF pos]
  have "fsum xs = PInf \<or> (\<exists>s. fsum xs = Fin s \<and> 0 \<le> s)" by auto
  moreover have "fsum xs \<noteq> PInf" using Cons.prems(2) x by (cases x) (auto simp: fgt_def)
  ultimately obtain s where s: "fsum xs = Fin s" "0 \<le> s" by blast
  from x Cons.prems(2) s obtain a where a: "x = Fin a" "0 < a" "t = a + s"
    by (cases x) (auto simp: fgt_def)
  have "\<forall>y\<in>set xs. \<exists>b. y = Fin b \<and> 0 < b \<and> b \<le> s" using Cons.IH [OF pos s(1)] .
  then have "\<forall>y\<in>set xs. \<exists>b. y = Fin b \<and> 0 < b \<and> b \<le> t" using a by fastforce
  then show ?case using a s by simp
qed


lemma px_per_sqft_Fin:
  "px_per_sqft (Fin t) = Inr (Fin (88814 / 125 / max 1 t))"
proof -
  have "max 1 t \<noteq> 0" by (simp add: max_def)
  then show ?thesis
    by (simp add: px_per_sqft_def available_area_pixels_def img_w_def img_h_def padding_def
          fmax_def fgt_def fdiv_def max_def)
qed

lemma px_per_sqft_PInf: "px_per_sqft PInf = Inr (Fin 0)"
  by (simp add: px_per_sqft_def fmax_def fgt_def fdiv_def)

lemma trunc_rat_le: "0 \<le> q \<Longrightarrow> q < of_int n + 1 \<Longrightarrow> trunc_rat q \<le> n"
  by (simp add: trunc_rat_def floor_le_iff)

lemma room_size_Fin:
  assumes "area r = Fin a" "t \<noteq> 0"
  shows "room_size (Fin p) (Fin t) r =
     Inr (max 60 (trunc_rat (a * p * (18 / 10))), max 60 (trunc_rat (200 * (1 + a / t * (14 / 10)))))"
  using assms by (simp add: room_size_def fdiv_def base_row_height_def)

lemma room_size_finite_total:
  assumes a: "area r = Fin a" "0 < a" "a \<le> t"
  shows "\<exists>w h. room_size (Fin (88814 / 125 / max 1 t)) (Fin t) r = Inr (w, h)
           \<and> 60 \<le> w \<and> w \<le> 1278 \<and> 60 \<le> h \<and> h \<le> 480"
proof -
  let ?m = "max 1 t"
  have t: "0 < t" using a by simp
  have m: "0 < ?m" "a \<le> ?m" using a by (simp_all add: max_def)
  then have r1: "a / ?m \<le> 1" by (simp add: divide_le_eq_1)
  have r2: "a / t \<le> 1" using a t by (simp add: divide_le_eq_1)
  have r0: "0 \<le> a / ?m" "0 \<le> a / t" using a t m by simp_all
  have "a * (88814 / 125 / ?m) * (18 / 10) = (a / ?m) * (1598652 / 1250)"
    by (simp add: field_simps)
  also have "\<dots> \<le> 1 * (1598652 / 1250)" using r1 by (intro mult_right_mono) simp_all
  finally have wq: "a * (88814 / 125 / ?m) * (18 / 10) < of_int 1278 + 1" by simp
  have wq0: "0 \<le> a * (88814 / 125 / ?m) * (18 / 10)" using a m by simp
  have "200 * (1 + a / t * (14 / 10)) \<le> 200 * (1 + 1 * (14 / 10))"
    using r2 by (intro mult_left_mono add_left_mono mult_right_mono) simp_all
  then have hq: "200 * (1 + a / t * (14 / 10)) < of_int 480 + 1" by simp
  have hq0: "0 \<le> 200 * (1 + a / t * (14 / 10))" using r0 by simp
  have "trunc_rat (a * (88814 / 125 / ?m) * (18 / 10)) \<le> 1278"
    using wq0 wq by (rule trunc_rat_le)
  moreover have "trunc_rat (200 * (1 + a / t * (14 / 10))) \<le> 480"
    using hq0 hq by (rule trunc_rat_le)
  ultimately show ?thesis
    using room_size_Fin [of r a t "88814 / 125 / ?m"] a t by simp
qed

lemma room_size_infinite_total:
  "room_size (Fin 0) PInf r = (case area r of Fin a \<Rightarrow> Inr (60, 200) | x \<Rightarrow> Inl (CannotConvertToInteger NaN))"
  by (cases "area r")
     (simp_all add: room_size_def fdiv_def base_row_height_def inf_of_sign_def trunc_rat_def)

lemma room_size_min: "room_size pps tot r = Inr (w, h) \<Longrightarrow> 60 \<le> w \<and> 60 \<le> h"
  by (auto simp: room_size_def split: sum.splits)

subsection \<open>The placement loop\<close>


lemma place_rooms_Cons_Inr:
  assumes "room_size pps tot r = Inr (w, h)"
  shows "place_rooms pps tot (r # rs) x y mrh ds =
    (let x1 = (if img_w < x + w + padding then padding else x);
         y1 = (if img_w < x + w + padding then y + mrh + padding else y);
         m1 = (if img_w < x + w + padding then 0 else mrh)
     in if img_h < y1 + h + padding
        then Inr \<lparr>drawn = ds, cur_x = x1, cur_y = y1, max_row_height = m1, omitted = r # rs\<rparr>
        else (case py_int (area r) of
                Inl e \<Rightarrow> Inl e
              | Inr ia \<Rightarrow>
                  place_rooms pps tot rs (x1 + w + padding) y1 (max m1 h)
                    (ds @ [\<lparr>rx = x1, ry = y1, rw = w, rh = h,
                            label_name = room r, label_area = ia\<rparr>])))"
  using assms by (simp add: Let_def)


lemma place_rooms_contained:
  assumes "\<forall>r\<in>set rs. \<forall>w h. room_size pps tot r = Inr (w, h) \<longrightarrow> w \<le> B"
    and "B + 2 * padding \<le> img_w"
    and "padding \<le> x" "padding \<le> y" "0 \<le> mrh"
    and "\<forall>d\<in>set ds. within_canvas_vertically d \<and> within_canvas_horizontally d \<and> rw d \<le> B"
    and "place_rooms pps tot rs x y mrh ds = Inr lay"
  shows "\<forall>d\<in>set (drawn lay).
           within_canvas_vertically d \<and> within_canvas_horizontally d \<and> rw d \<le> B"
  using assms
proof (induction rs arbitrary: x y mrh ds)
  case Nil
  then show ?case by auto
next
  case (Cons r rs)
  obtain w h where sz: "room_size pps tot r = Inr (w, h)"
    using Cons.prems(7) by (cases "room_size pps tot r") auto
  have wh: "60 \<le> w" "60 \<le> h" using room_size_min [OF sz] by simp_all
  have wB: "w \<le> B" using Cons.prems(1) sz by simp
  then have wb: "w + 2 * padding \<le> img_w" using Cons.prems(2) by linarith
  define x1 where "x1 = (if img_w < x + w + padding then padding else x)"
  define y1 where "y1 = (if img_w < x + w + padding then y + mrh + padding else y)"
  define m1 where "m1 = (if img_w < x + w + padding then 0 else mrh)"
  note step = place_rooms_Cons_Inr [OF sz, of rs x y mrh ds, folded x1_def y1_def m1_def]
  have pad: "0 \<le> padding" by (simp add: padding_def)
  have x1: "padding \<le> x1" "x1 + w + padding \<le> img_w"
    using Cons.prems(3) wb by (auto simp: x1_def)
  have y1: "padding \<le> y1" using Cons.prems(4,5) pad by (auto simp: y1_def)
  have m1: "0 \<le> m1" using Cons.prems(5) by (auto simp: m1_def)
  show ?case
  proof (cases "img_h < y1 + h + padding")
    case True
    then have "drawn lay = ds" using Cons.prems(7) unfolding step by (auto simp: Let_def)
    then show ?thesis using Cons.prems(6) by simp
  next
    case False
    obtain ia where ia: "py_int (area r) = Inr ia"
      using Cons.prems(7) False unfolding step by (cases "py_int (area r)") (auto simp: Let_def)
    let ?d = "\<lparr>rx = x1, ry = y1, rw = w, rh = h, label_name = room r, label_area = ia\<rparr>"
    have rec: "place_rooms pps tot rs (x1 + w + padding) y1 (max m1 h) (ds @ [?d]) = Inr lay"
      using Cons.prems(7) False ia unfolding step by (simp add: Let_def)
    have d: "within_canvas_vertically ?d \<and> within_canvas_horizontally ?d \<and> rw ?d \<le> B"
      using x1 y1 False wB
      by (simp add: within_canvas_vertically_def within_canvas_horizontally_def)
    show ?thesis
    proof (rule Cons.IH [OF _ Cons.prems(2) _ _ _ _ rec])
      show "\<forall>r\<in>set rs. \<forall>w h. room_size pps tot r = Inr (w, h) \<longrightarrow> w \<le> B"
        using Cons.prems(1) by simp
      show "padding \<le> x1 + w + padding" using x1 wh pad by linarith
      show "padding \<le> y1" by (rule y1(1))
      show "0 \<le> max m1 h" using m1 by simp
      show "\<forall>d\<in>set (ds @ [?d]).
              within_canvas_vertically d \<and> within_canvas_horizontally d \<and> rw d \<le> B"
        using Cons.prems(6) d by auto
    qed
  qed
qed


subsection \<open>The handler on a list of rooms\<close>

lemma generate_blueprint_list:
  assumes "rooms_value kvs = PList rs" "rs \<noteq> []"
  shows "generate_blueprint so (PDict kvs) =
     (case sanitize so rs [] (Fin 0) of
        Inl e \<Rightarrow> Error_500 e
      | Inr (sanitized, total_area) \<Rightarrow>
          if fle total_area (Fin 0) then Error_400 ''Total area must be > 0''
          else (case px_per_sqft total_area of
                  Inl e \<Rightarrow> Error_500 e
                | Inr pps \<Rightarrow>
                    (case place_rooms pps total_area (rooms_sorted sanitized) padding padding 0 [] of
                       Inl e \<Rightarrow> Error_500 e
                     | Inr lay \<Rightarrow>
                         (case py_int total_area of
                            Inl e \<Rightarrow> Error_500 e
                          | Inr t \<Rightarrow> Png (drawn lay) t))))"
  using assms unfolding generate_blueprint_def dict_get_def rooms_value_def
  by (simp split: option.splits)

lemma sanitize_facts:
  assumes "sanitize so rs [] (Fin 0) = Inr (sanitized, tot)"
  shows "(\<forall>r\<in>set sanitized. fgt (area r) (Fin 0)) \<and> tot = fsum (map area sanitized)
           \<and> (sanitized \<noteq> [] \<longrightarrow> rs \<noteq> [])"
proof -
  obtain es where es: "rs = map PDict es" using sanitize_dicts [OF assms] by blast
  with assms have "sanitized = spec_kept so es" "tot = spec_total so es"
    using sanitize_acc [of so es "[]" "Fin 0"] by (simp_all add: fadd_zero_left)
  then show ?thesis using spec_kept_positive es
    by (auto simp: spec_total_def spec_kept_def)
qed

lemma set_rooms_sorted: "set (rooms_sorted xs) = set xs"
  using mset_py_sorted [of "\<lambda>r. fneg (area r)" xs] unfolding rooms_sorted_def
  by (metis set_mset_mset)



lemma sanitized_total_cases:
  assumes "sanitize so rs [] (Fin 0) = Inr (sanitized, tot)" "\<not> fle tot (Fin 0)"
  shows "sanitized \<noteq> [] \<and> (tot = PInf \<or> (\<exists>t. tot = Fin t \<and> 0 < t))"
proof -
  from sanitize_facts [OF assms(1)]
  have pos: "\<forall>r\<in>set sanitized. fgt (area r) (Fin 0)" and tot: "tot = fsum (map area sanitized)"
    by auto
  have "\<forall>x\<in>set (map area sanitized). fgt x (Fin 0)" using pos by auto
  from fsum_positive [OF this] assms(2) tot show ?thesis by (auto simp: fle_def)
qed

lemma room_width_fits:
  assumes s: "sanitize so rs [] (Fin 0) = Inr (sanitized, tot)" "\<not> fle tot (Fin 0)"
    and p: "px_per_sqft tot = Inr pps"
    and r: "r \<in> set sanitized" "room_size pps tot r = Inr (w, h)"
  shows "w \<le> 1278"
proof -
  from sanitize_facts [OF s(1)]
  have pos: "\<forall>r\<in>set sanitized. fgt (area r) (Fin 0)" and tot: "tot = fsum (map area sanitized)"
    by auto
  have posm: "\<forall>x\<in>set (map area sanitized). fgt x (Fin 0)" using pos by auto
  from sanitized_total_cases [OF s] consider "tot = PInf" | t where "tot = Fin t" "0 < t"
    by blast
  then show ?thesis
  proof cases
    case 1
    then have "pps = Fin 0" using p by (simp add: px_per_sqft_PInf)
    then show ?thesis using r(2) 1
      by (cases "area r") (auto simp: room_size_infinite_total)
  next
    case 2
    have "\<forall>x\<in>set (map area sanitized). \<exists>a. x = Fin a \<and> 0 < a \<and> a \<le> t"
      using fsum_Fin_bound [OF posm] tot 2 by simp
    then obtain a where a: "area r = Fin a" "0 < a" "a \<le> t" using r(1) by auto
    have "pps = Fin (88814 / 125 / max 1 t)" using p 2 by (simp add: px_per_sqft_Fin)
    then show ?thesis using room_size_finite_total [OF a] r(2) 2 by auto
  qed
qed

lemma generate_blueprint_Png:
  assumes "generate_blueprint so payload = Png ds n"
  shows "\<exists>kvs rs sanitized tot pps lay.
           payload = PDict kvs \<and> rooms_value kvs = PList rs \<and> rs \<noteq> []
           \<and> sanitize so rs [] (Fin 0) = Inr (sanitized, tot) \<and> \<not> fle tot (Fin 0)
           \<and> px_per_sqft tot = Inr pps
           \<and> place_rooms pps tot (rooms_sorted sanitized) padding padding 0 [] = Inr lay
           \<and> py_int tot = Inr n \<and> ds = drawn lay"
proof -
  obtain kvs where kvs: "payload = PDict kvs"
    using assms by (cases payload) (auto simp: generate_blueprint_def dict_get_def)
  have tl: "truthy (rooms_value kvs)" "is_list (rooms_value kvs)"
    using assms kvs
    by (auto simp: generate_blueprint_def dict_get_def rooms_value_def split: if_splits)
  then obtain rs where rs: "rooms_value kvs = PList rs" "rs \<noteq> []"
    by (cases "rooms_value kvs") auto
  have g: "(case sanitize so rs [] (Fin 0) of
        Inl e \<Rightarrow> Error_500 e
      | Inr (sanitized, total_area) \<Rightarrow>
          if fle total_area (Fin 0) then Error_400 ''Total area must be > 0''
          else (case px_per_sqft total_area of
                  Inl e \<Rightarrow> Error_500 e
                | Inr pps \<Rightarrow>
                    (case place_rooms pps total_area (rooms_sorted sanitized) padding padding 0 [] of
                       Inl e \<Rightarrow> Error_500 e
                     | Inr lay \<Rightarrow>
                         (case py_int total_area of
                            Inl e \<Rightarrow> Error_500 e
                          | Inr t \<Rightarrow> Png (drawn lay) t)))) = Png ds n"
    using assms kvs generate_blueprint_list [OF rs, of so] by simp
  then obtain sanitized tot where s: "sanitize so rs [] (Fin 0) = Inr (sanitized, tot)"
    by (cases "sanitize so rs [] (Fin 0)") auto
  from g s have nf: "\<not> fle tot (Fin 0)" by (auto split: if_splits)
  from g s nf obtain pps where p: "px_per_sqft tot = Inr pps"
    by (cases "px_per_sqft tot") auto
  from g s nf p obtain lay where
    l: "place_rooms pps tot (rooms_sorted sanitized) padding padding 0 [] = Inr lay"
    by (cases "place_rooms pps tot (rooms_sorted sanitized) padding padding 0 []") auto
  from g s nf p l have "py_int tot = Inr n \<and> ds = drawn lay"
    by (cases "py_int tot") auto
  then show ?thesis using kvs rs s nf p l by blast
qed

lemma generate_blueprint_contained:
  assumes "generate_blueprint so payload = Png ds n" "d \<in> set ds"
  shows "within_canvas_vertically d \<and> within_canvas_horizontally d \<and> rw d \<le> 1278"
proof -
  from generate_blueprint_Png [OF assms(1)] obtain kvs rs sanitized tot pps lay where
    s: "sanitize so rs [] (Fin 0) = Inr (sanitized, tot)" "\<not> fle tot (Fin 0)"
    and p: "px_per_sqft tot = Inr pps"
    and l: "place_rooms pps tot (rooms_sorted sanitized) padding padding 0 [] = Inr lay"
    and ds: "ds = drawn lay" by blast
  have wb: "\<forall>r\<in>set (rooms_sorted sanitized). \<forall>w h. room_size pps tot r = Inr (w, h) \<longrightarrow> w \<le> 1278"
    using room_width_fits [OF s p] set_rooms_sorted by blast
  have "\<forall>d\<in>set (drawn lay).
      within_canvas_vertically d \<and> within_canvas_horizontally d \<and> rw d \<le> 1278"
    by (rule place_rooms_contained [OF wb _ _ _ _ _ l]) (simp_all add: padding_def img_w_def)
  then show ?thesis using assms(2) ds by simp
qed

subsection \<open>The first room and the canvas\<close>





text \<open>
  Claim C9, as amended. Every rectangle of the image keeps the padding on all four
  sides: \<open>x \<ge> padding\<close>, \<open>y \<ge> padding\<close>, \<open>y + height + padding \<le> 1000\<close> and also
  \<open>x + width + padding \<le> 1500\<close>, because no room is wider than 1278 pixels.
\<close>

theorem placed_rectangles_within_canvas:
  "generate_blueprint str_other payload = Png ds n \<and> d \<in> set ds \<longrightarrow>
     within_canvas_vertically d \<and> within_canvas_horizontally d \<and> rw d \<le> 1278"
  using generate_blueprint_contained by blast

text \<open>The theorem at the rectangle of the room Kitchen in the image of Hall and Kitchen.\<close>

theorem placed_rectangles_within_canvas_witness:
  "within_canvas_vertically
     \<lparr>rx = 1097, ry = 16, rw = 213, rh = 246, label_name = ''Kitchen'', label_area = 100\<rparr>
   \<and> within_canvas_horizontally
     \<lparr>rx = 1097, ry = 16, rw = 213, rh = 246, label_name = ''Kitchen'', label_area = 100\<rparr>"
proof -
  let ?h = "\<lparr>rx = 16, ry = 16, rw = 1065, rh = 433, label_name = ''Hall'', label_area = 500\<rparr>"
  let ?k = "\<lparr>rx = 1097, ry = 16, rw = 213, rh = 246, label_name = ''Kitchen'', label_area = 100\<rparr>"
  have m: "?k \<in> set [?h, ?k]" by simp
  show ?thesis
    using placed_rectangles_within_canvas [of "\<lambda>v. []"
        "request_body [room_entry ''Hall'' (PInt 500), room_entry ''Kitchen'' (PInt 100)]"
        "[?h, ?k]" 600 ?k]
      hall_kitchen_blueprint [of "\<lambda>v. []"] m
    by blast
qed

text \<open>
  The second half of the claim as stated, that the right edge of a placed rectangle may
  extend past the canvas, fails: no response contains such a rectangle.
\<close>

theorem right_edge_counterexample:
  "\<not> (\<exists>str_other payload ds n d.
        generate_blueprint str_other payload = Png ds n \<and> d \<in> set ds
        \<and> img_w < rx d + rw d + padding)"
  using generate_blueprint_contained
  by (fastforce simp: within_canvas_horizontally_def)

subsection \<open>Leaving the loop\<close>






end
